theory Spec2Isabelle
  imports Complex_Main
begin

section \<open>Numbers and time\<close>

text \<open>
  The TypeScript sources compute with JavaScript numbers, which are IEEE-754 doubles. A
  number of the program is modelled by the \<^typ>\<open>real\<close> it denotes. Comparisons,
  \<open>Math.abs\<close> (\<^term>\<open>abs\<close>), \<open>Math.max\<close> (\<^term>\<open>max\<close>) and \<open>Math.round\<close> are exact on
  doubles; \<open>Math.round x\<close> is \<open>\<lfloor>x + 1/2\<rfloor>\<close>, which is \<^term>\<open>round x\<close>. The sum,
  difference, product and quotient of two doubles are the exact results rounded to the
  nearest double, ties to even (\<open>dadd\<close>, \<open>dsub\<close>, \<open>dmul\<close>, \<open>ddiv\<close> below); they are used
  wherever the sources compute a price, a payout, a reward or a balance. Results beyond
  the largest double (overflow to an infinity) and \<open>NaN\<close> have no counterpart here.
  Millisecond timestamps and durations are \<^typ>\<open>nat\<close>; \<open>Date.now()\<close> is read from the
  clock of the modelled event loop.
\<close>

subsection \<open>Rounding to the nearest double\<close>

text \<open>
  A positive number is written \<open>m * 2 ^ e\<close> with \<open>2 ^ 52 \<le> m < 2 ^ 53\<close>, or with
  \<open>e = - 1074\<close> and a smaller \<open>m\<close> for the subnormal numbers; its nearest double is
  \<open>m\<close> rounded to an integer, ties to the even one, times \<open>2 ^ e\<close>. \<open>normalise\<close>
  finds \<open>m\<close> and \<open>e\<close> by doubling or halving; 2200 steps reach every quotient and
  product of two doubles.
\<close>

definition roundEven :: "real \<Rightarrow> int" where
  "roundEven m =
     (let f = \<lfloor>m\<rfloor>; d = m - of_int f
      in if d < 1 / 2 then f
         else if d > 1 / 2 then f + 1
         else if even f then f else f + 1)"

fun normalise :: "nat \<Rightarrow> real \<Rightarrow> int \<Rightarrow> real \<times> int" where
  "normalise fuel m e =
     (if fuel = 0 then (m, e)
      else if m < 2 ^ 52 \<and> - 1074 < e then normalise (fuel - 1) (m * 2) (e - 1)
      else if 2 ^ 53 \<le> m then normalise (fuel - 1) (m / 2) (e + 1)
      else (m, e))"

declare normalise.simps [simp del]

definition fl :: "real \<Rightarrow> real" where
  "fl x =
     (if x = 0 then 0
      else let (m, e) = normalise 2200 \<bar>x\<bar> 0
           in sgn x * of_int (roundEven m) * 2 powi e)"

definition dadd :: "real \<Rightarrow> real \<Rightarrow> real" where
  "dadd x y = fl (x + y)"

definition dsub :: "real \<Rightarrow> real \<Rightarrow> real" where
  "dsub x y = fl (x - y)"

definition dmul :: "real \<Rightarrow> real \<Rightarrow> real" where
  "dmul x y = fl (x * y)"

definition ddiv :: "real \<Rightarrow> real \<Rightarrow> real" where
  "ddiv x y = fl (x / y)"

section \<open>models/Prediction\<close>

datatype PredictionDirection = Up | Down

record Prediction =
  timestamp :: nat
  direction :: PredictionDirection
  amount :: real
  userId :: string

definition newPrediction :: "PredictionDirection \<Rightarrow> real \<Rightarrow> string \<Rightarrow> nat \<Rightarrow> Prediction" where
  "newPrediction d a u ts = \<lparr>timestamp = ts, direction = d, amount = a, userId = u\<rparr>"

definition isCorrect :: "Prediction \<Rightarrow> PredictionDirection \<Rightarrow> bool" where
  "isCorrect p actualDirection = (direction p = actualDirection)"

section \<open>models/GameResult\<close>

datatype GameResultStatus = Win | Lose | Pending

record GameResult =
  prediction :: Prediction
  startPrice :: real
  endPrice :: real
  resultTimestamp :: nat
  reward :: real
  status :: GameResultStatus

definition getActualDirection :: "GameResult \<Rightarrow> PredictionDirection" where
  "getActualDirection r =
     (if endPrice r > startPrice r then Up
      else if endPrice r < startPrice r then Down
      else Down)"

definition calculateStatus :: "GameResult \<Rightarrow> GameResultStatus" where
  "calculateStatus r = (if isCorrect (prediction r) (getActualDirection r) then Win else Lose)"

text \<open>
  The constructor takes an optional end price. \<open>endPrice || startPrice\<close> and the test
  \<open>endPrice ? ... : 'pending'\<close> treat a missing end price and the number \<open>0\<close> alike
  (both are falsy).
\<close>

definition truthy :: "real option \<Rightarrow> bool" where
  "truthy x = (case x of None \<Rightarrow> False | Some v \<Rightarrow> v \<noteq> 0)"

definition orElse :: "real option \<Rightarrow> real \<Rightarrow> real" where
  "orElse x d = (case x of None \<Rightarrow> d | Some v \<Rightarrow> if v \<noteq> 0 then v else d)"

definition newGameResult :: "Prediction \<Rightarrow> real \<Rightarrow> real option \<Rightarrow> nat \<Rightarrow> GameResult" where
  "newGameResult p sp ep ts =
     (let r0 = \<lparr>prediction = p, startPrice = sp,
                endPrice = orElse ep sp,
                resultTimestamp = ts, reward = 0, status = Pending\<rparr>
      in r0\<lparr>status := (if truthy ep then calculateStatus r0 else Pending)\<rparr>)"

definition setReward :: "real \<Rightarrow> GameResult \<Rightarrow> GameResult" where
  "setReward x r = r\<lparr>reward := x\<rparr>"

text \<open>
  \<open>((end - start) / start) * 100\<close>, each operation rounded. For a start price of \<open>0\<close>
  JavaScript yields \<open>NaN\<close> or an infinity; every statement below that depends on the
  quotient assumes a positive start price.
\<close>

definition getPriceChangePercentage :: "GameResult \<Rightarrow> real" where
  "getPriceChangePercentage r =
     dmul (ddiv (dsub (endPrice r) (startPrice r)) (startPrice r)) 100"

section \<open>models/ChartData and services/ChartService\<close>

record ChartDataPoint =
  pointTimestamp :: nat
  price :: real

record ChartData =
  data :: "ChartDataPoint list"
  maxDataPoints :: nat

definition addDataPoint :: "ChartDataPoint \<Rightarrow> ChartData \<Rightarrow> ChartData" where
  "addDataPoint pt cd =
     (let d = data cd @ [pt]
      in if maxDataPoints cd > 0 \<and> length d > maxDataPoints cd
         then cd\<lparr>data := drop (length d - maxDataPoints cd) d\<rparr>
         else cd\<lparr>data := d\<rparr>)"

definition getLatestPoint :: "ChartData \<Rightarrow> ChartDataPoint option" where
  "getLatestPoint cd = (if data cd = [] then None else Some (last (data cd)))"

record ChartService =
  chartData :: ChartData
  volatility :: real
  trend :: real
  lastPrice :: real
  fixedTimeStep :: nat

text \<open>
  \<open>generateNextDataPoint\<close>: \<open>u\<close> is the value drawn by \<open>Math.random()\<close>, \<open>now\<close> the
  clock (used only when the buffer is empty). The literal \<open>0.01\<close> of the source is
  the double nearest to 0.01, \<open>fl 0.01\<close>. The subscribers it notifies are the
  rendering collaborators and are not modelled.
\<close>

definition generateNextDataPoint ::
    "real \<Rightarrow> nat \<Rightarrow> ChartService \<Rightarrow> ChartDataPoint \<times> ChartService" where
  "generateNextDataPoint u now cs =
     (let ts = (case getLatestPoint (chartData cs) of
                  Some lastPoint \<Rightarrow> pointTimestamp lastPoint + fixedTimeStep cs
                | None \<Rightarrow> now);
          randomChange = dmul (dmul (lastPrice cs) (volatility cs)) (dsub (dmul u 2) 1);
          trendChange = dmul (lastPrice cs) (trend cs);
          newPrice = max (fl 0.01) (dadd (dadd (lastPrice cs) randomChange) trendChange);
          dataPoint = \<lparr>pointTimestamp = ts, price = newPrice\<rparr>
      in (dataPoint, cs\<lparr>lastPrice := newPrice,
                          chartData := addDataPoint dataPoint (chartData cs)\<rparr>))"

section \<open>services/GameService: rounds\<close>

record GameRound =
  startTime :: nat
  endTime :: nat
  roundStartPrice :: real
  predictions :: "Prediction list"
  isActive :: bool

definition newGameRound :: "nat \<Rightarrow> nat \<Rightarrow> real \<Rightarrow> GameRound" where
  "newGameRound st durationMs sp =
     \<lparr>startTime = st, endTime = st + durationMs, roundStartPrice = sp,
      predictions = [], isActive = True\<rparr>"

definition addPrediction :: "Prediction \<Rightarrow> GameRound \<Rightarrow> GameRound" where
  "addPrediction p r = (if isActive r then r\<lparr>predictions := predictions r @ [p]\<rparr> else r)"

definition close :: "GameRound \<Rightarrow> GameRound" where
  "close r = r\<lparr>isActive := False\<rparr>"

definition getRemainingTimeMs :: "nat \<Rightarrow> GameRound \<Rightarrow> nat" where
  "getRemainingTimeMs now r = (if endTime r \<ge> now then endTime r - now else 0)"

record GameService =
  currentRound :: "GameRound option"
  results :: "GameResult list"
  subscribers :: nat
  roundDurationMs :: nat
  roundIntervalMs :: nat
  intervalId :: "nat option"
  winMultiplier :: real

text \<open>
  The only callback ever passed to \<open>subscribeToResults\<close> in the repository is
  \<open>Game.handleGameResult\<close> (bound in the constructor of \<open>Game\<close>), so the subscriber
  array is represented by the number of times that handler is registered.
\<close>

section \<open>core/Game\<close>

datatype GameState = Waiting | Running | Finished

record GameConfig =
  cfgRoundDurationMs :: nat
  cfgRoundIntervalMs :: nat
  cfgWinMultiplier :: real
  initialBalance :: real

datatype GameEvent =
    RoundStart nat real
  | RoundEnd nat "GameResult list"
  | PredictionMade PredictionDirection real real
  | BalanceChanged real real
  | Countdown nat
  | Result GameResult nat

text \<open>
  \<open>events\<close> is the stream handed to \<open>emitEvent\<close>, in emission order: what a listener
  registered from the beginning receives. Calls into the audio service are not modelled.
\<close>

record Game =
  config :: GameConfig
  gstate :: GameState
  balance :: real
  gameUserId :: string
  countdownIntervalId :: "nat option"
  winStreak :: nat
  events :: "GameEvent list"

definition emitEvent :: "GameEvent \<Rightarrow> Game \<Rightarrow> Game" where
  "emitEvent e g = g\<lparr>events := events g @ [e]\<rparr>"

definition updateBalance :: "real \<Rightarrow> Game \<Rightarrow> Game" where
  "updateBalance change g =
     (let g1 = g\<lparr>balance := dadd (balance g) change\<rparr>
      in emitEvent (BalanceChanged (balance g1) change) g1)"

definition amountChange :: "GameResult \<Rightarrow> int" where
  "amountChange r =
     (let priceChangePercentage = \<bar>getPriceChangePercentage r\<bar>
      in round (ddiv (dmul (amount (prediction r)) priceChangePercentage) 100))"

definition handleGameResult :: "GameResult \<Rightarrow> Game \<Rightarrow> Game" where
  "handleGameResult r g =
     (if userId (prediction r) \<noteq> gameUserId g then g
      else
        let g1 = (if status r = Win
                  then (updateBalance (of_int (amountChange r)) g)\<lparr>winStreak := winStreak g + 1\<rparr>
                  else (updateBalance (- of_int (amountChange r)) g)\<lparr>winStreak := 0\<rparr>)
        in emitEvent (Result r (winStreak g1)) g1)"

section \<open>The event loop\<close>

text \<open>
  The services run on one JavaScript event loop. Its timers are kept in a list: \<open>due\<close>
  is the time at which a timer fires, \<open>period\<close> is set for \<open>setInterval\<close> timers, \<open>seq\<close>
  orders timers that are due at the same time by the moment they were (re)armed. The
  three callbacks the core registers are the body of the round interval of
  \<open>startGameCycle\<close>, the \<open>startNewRound\<close> timeout it arms, and the countdown interval of
  \<open>Game.startCountdown\<close>. \<open>currentPrice\<close> is what \<open>IChartService.getCurrentPrice\<close>
  (and \<open>markPredictionPoint\<close>) returns at the moment.
\<close>

datatype callback = RoundCycle | StartNewRound | CountdownTick

record timer =
  tid :: nat
  seq :: nat
  due :: nat
  period :: "nat option"
  callback :: callback

record System =
  clock :: nat
  timers :: "timer list"
  nextId :: nat
  currentPrice :: real
  service :: GameService
  game :: Game

definition setInterval :: "callback \<Rightarrow> nat \<Rightarrow> System \<Rightarrow> nat \<times> System" where
  "setInterval cb ms s =
     (nextId s,
      s\<lparr>timers := timers s @ [\<lparr>tid = nextId s, seq = nextId s, due = clock s + ms,
                                period = Some ms, callback = cb\<rparr>],
        nextId := nextId s + 1\<rparr>)"

definition setTimeout :: "callback \<Rightarrow> nat \<Rightarrow> System \<Rightarrow> nat \<times> System" where
  "setTimeout cb ms s =
     (nextId s,
      s\<lparr>timers := timers s @ [\<lparr>tid = nextId s, seq = nextId s, due = clock s + ms,
                                period = None, callback = cb\<rparr>],
        nextId := nextId s + 1\<rparr>)"

definition clearInterval :: "nat \<Rightarrow> System \<Rightarrow> System" where
  "clearInterval i s = s\<lparr>timers := filter (\<lambda>t. tid t \<noteq> i) (timers s)\<rparr>"

text \<open>The timer that fires next: the least \<open>due\<close>, and among equals the least \<open>seq\<close>.\<close>

definition earlier :: "timer \<Rightarrow> timer \<Rightarrow> bool" where
  "earlier a b = (due a < due b \<or> (due a = due b \<and> seq a < seq b))"

fun nextTimer :: "timer list \<Rightarrow> timer option" where
  "nextTimer [] = None"
| "nextTimer (t # ts) =
     (case nextTimer ts of
        None \<Rightarrow> Some t
      | Some u \<Rightarrow> if earlier u t then Some u else Some t)"

section \<open>services/GameService: operations\<close>

datatype GameError = GameNotRunning | InvalidAmount | RoundNotActive

definition startNewRound :: "System \<Rightarrow> System" where
  "startNewRound s =
     s\<lparr>service := (service s)\<lparr>currentRound :=
          Some (newGameRound (clock s) (roundDurationMs (service s)) (currentPrice s))\<rparr>\<rparr>"

definition getCurrentRound :: "System \<Rightarrow> GameRound \<times> System" where
  "getCurrentRound s =
     (case currentRound (service s) of
        Some r \<Rightarrow> (r, s)
      | None \<Rightarrow> (newGameRound (clock s) (roundDurationMs (service s)) (currentPrice s),
                 startNewRound s))"

definition serviceMakePrediction ::
    "PredictionDirection \<Rightarrow> real \<Rightarrow> string \<Rightarrow> System \<Rightarrow> GameError + (Prediction \<times> System)" where
  "serviceMakePrediction d a u s =
     (case currentRound (service s) of
        None \<Rightarrow> Inl RoundNotActive
      | Some r \<Rightarrow>
          if \<not> isActive r then Inl RoundNotActive
          else
            let p = newPrediction d a u (clock s)
            in Inr (p, s\<lparr>service := (service s)\<lparr>currentRound := Some (addPrediction p r)\<rparr>\<rparr>))"

definition subscribeToResults :: "System \<Rightarrow> System" where
  "subscribeToResults s = s\<lparr>service := (service s)\<lparr>subscribers := subscribers (service s) + 1\<rparr>\<rparr>"

definition notifySubscribers :: "GameResult \<Rightarrow> System \<Rightarrow> System" where
  "notifySubscribers r s = s\<lparr>game := (handleGameResult r ^^ subscribers (service s)) (game s)\<rparr>"

text \<open>
  The body of the loop of \<open>endCurrentRound\<close> for one prediction: build the result from
  the round's start price and the price read at the close and set the multiplier reward
  on a win (\<open>buildResult\<close>), store the result, notify.
\<close>

definition buildResult :: "nat \<Rightarrow> real \<Rightarrow> real \<Rightarrow> real \<Rightarrow> Prediction \<Rightarrow> GameResult" where
  "buildResult now w sp cp p =
     (let r0 = newGameResult p sp (Some cp) now
      in if status r0 = Win then setReward (dmul (amount p) w) r0 else r0)"

definition settleOne :: "real \<Rightarrow> real \<Rightarrow> Prediction \<Rightarrow> System \<Rightarrow> System" where
  "settleOne sp cp p s =
     (let r = buildResult (clock s) (winMultiplier (service s)) sp cp p;
          s1 = s\<lparr>service := (service s)\<lparr>results := results (service s) @ [r]\<rparr>\<rparr>
      in notifySubscribers r s1)"

definition endCurrentRound :: "System \<Rightarrow> System" where
  "endCurrentRound s =
     (case currentRound (service s) of
        None \<Rightarrow> s
      | Some r \<Rightarrow>
          let s1 = s\<lparr>service := (service s)\<lparr>currentRound := Some (close r)\<rparr>\<rparr>;
              cp = currentPrice s1
          in fold (settleOne (roundStartPrice r) cp) (predictions r) s1)"

definition roundCycle :: "System \<Rightarrow> System" where
  "roundCycle s =
     (let s1 = endCurrentRound s
      in snd (setTimeout StartNewRound (roundIntervalMs (service s1)) s1))"

definition startGameCycle :: "System \<Rightarrow> System" where
  "startGameCycle s =
     (if intervalId (service s) \<noteq> None then s
      else
        let s1 = startNewRound s;
            (i, s2) = setInterval RoundCycle
                        (roundDurationMs (service s1) + roundIntervalMs (service s1)) s1
        in s2\<lparr>service := (service s2)\<lparr>intervalId := Some i\<rparr>\<rparr>)"

section \<open>core/Game: operations\<close>

definition stopCountdown :: "System \<Rightarrow> System" where
  "stopCountdown s =
     (case countdownIntervalId (game s) of
        None \<Rightarrow> s
      | Some i \<Rightarrow> (clearInterval i s)\<lparr>game := (game s)\<lparr>countdownIntervalId := None\<rparr>\<rparr>)"

definition startCountdown :: "System \<Rightarrow> System" where
  "startCountdown s =
     (let s1 = (if countdownIntervalId (game s) \<noteq> None then stopCountdown s else s);
          (i, s2) = setInterval CountdownTick 1000 s1
      in s2\<lparr>game := (game s2)\<lparr>countdownIntervalId := Some i\<rparr>\<rparr>)"

definition countdownTick :: "System \<Rightarrow> System" where
  "countdownTick s =
     (let (r, s1) = getCurrentRound s;
          remainingMs = getRemainingTimeMs (clock s1) r;
          remainingSeconds = (remainingMs + 999) div 1000
      in s1\<lparr>game := emitEvent (Countdown remainingSeconds) (game s1)\<rparr>)"

definition start :: "System \<Rightarrow> System" where
  "start s =
     (if gstate (game s) = Running then s
      else
        let s1 = s\<lparr>game := (game s)\<lparr>gstate := Running\<rparr>\<rparr>;
            (r, s2) = getCurrentRound s1;
            s3 = s2\<lparr>game := emitEvent (RoundStart (startTime r) (roundStartPrice r)) (game s2)\<rparr>
        in startCountdown s3)"

definition stop :: "System \<Rightarrow> System" where
  "stop s =
     (if gstate (game s) \<noteq> Running then s
      else stopCountdown (s\<lparr>game := (game s)\<lparr>gstate := Finished\<rparr>\<rparr>))"

definition makePrediction :: "PredictionDirection \<Rightarrow> real \<Rightarrow> System \<Rightarrow> GameError + System" where
  "makePrediction d a s =
     (if gstate (game s) \<noteq> Running then Inl GameNotRunning
      else if a \<le> 0 \<or> a > balance (game s) then Inl InvalidAmount
      else
        case serviceMakePrediction d a (gameUserId (game s)) s of
          Inl e \<Rightarrow> Inl e
        | Inr (p, s1) \<Rightarrow>
            Inr (s1\<lparr>game := emitEvent (PredictionMade d a (currentPrice s1)) (game s1)\<rparr>))"

section \<open>Construction\<close>

text \<open>
  \<open>main.tsx\<close>: the game service is created first (its constructor starts the game
  cycle), then the game, whose constructor subscribes \<open>handleGameResult\<close>.
\<close>

definition newGameService :: "nat \<Rightarrow> nat \<Rightarrow> real \<Rightarrow> GameService" where
  "newGameService d i w =
     \<lparr>currentRound = None, results = [], subscribers = 0, roundDurationMs = d,
      roundIntervalMs = i, intervalId = None, winMultiplier = w\<rparr>"

definition newGame :: "GameConfig \<Rightarrow> string \<Rightarrow> Game" where
  "newGame c u =
     \<lparr>config = c, gstate = Waiting, balance = initialBalance c, gameUserId = u,
      countdownIntervalId = None, winStreak = 0, events = []\<rparr>"

definition newSystem :: "nat \<Rightarrow> real \<Rightarrow> nat \<Rightarrow> nat \<Rightarrow> real \<Rightarrow> GameConfig \<Rightarrow> string \<Rightarrow> System" where
  "newSystem now p d i w c u =
     subscribeToResults
       (startGameCycle
          \<lparr>clock = now, timers = [], nextId = 1, currentPrice = p,
           service = newGameService d i w, game = newGame c u\<rparr>)"

section \<open>Runs\<close>

text \<open>
  What can happen next: the timer that is due next fires (\<open>Fire\<close>); time passes
  without reaching the next timer (\<open>Advance\<close>); the price feed moves (\<open>PriceFeed\<close>); the
  user interface calls \<open>start\<close>, \<open>stop\<close> or \<open>makePrediction\<close> on the game; another client
  calls \<open>makePrediction\<close> on the game service. A call that throws leaves the state as it
  was: every \<open>throw\<close> of the sources precedes the first assignment. The methods
  \<open>stopGameCycle\<close>, \<open>setRoundDuration\<close> and \<open>setWinMultiplier\<close> of the game service are
  called nowhere in the repository and are not reachable through \<open>IGameService\<close>; they
  are not among the actions.
\<close>

datatype action =
    Fire
  | Advance nat
  | PriceFeed real
  | Start
  | Stop
  | Predict PredictionDirection real
  | ServicePredict PredictionDirection real string

definition runCallback :: "callback \<Rightarrow> System \<Rightarrow> System" where
  "runCallback cb s =
     (case cb of
        RoundCycle \<Rightarrow> roundCycle s
      | StartNewRound \<Rightarrow> startNewRound s
      | CountdownTick \<Rightarrow> countdownTick s)"

definition rearm :: "timer \<Rightarrow> nat \<Rightarrow> System \<Rightarrow> System" where
  "rearm t ms s =
     s\<lparr>timers := map (\<lambda>x. if tid x = tid t then x\<lparr>due := due t + ms, seq := nextId s\<rparr> else x)
                     (timers s),
       nextId := nextId s + 1\<rparr>"

definition fire :: "System \<Rightarrow> System" where
  "fire s =
     (case nextTimer (timers s) of
        None \<Rightarrow> s
      | Some t \<Rightarrow>
          (case period t of
             None \<Rightarrow>
               runCallback (callback t)
                 (s\<lparr>clock := due t, timers := filter (\<lambda>x. tid x \<noteq> tid t) (timers s)\<rparr>)
           | Some ms \<Rightarrow>
               rearm t ms (runCallback (callback t) (s\<lparr>clock := due t\<rparr>))))"

definition advance :: "nat \<Rightarrow> System \<Rightarrow> System" where
  "advance dt s =
     (case nextTimer (timers s) of
        None \<Rightarrow> s\<lparr>clock := clock s + dt\<rparr>
      | Some t \<Rightarrow> s\<lparr>clock := min (clock s + dt) (max (clock s) (due t))\<rparr>)"

definition step :: "action \<Rightarrow> System \<Rightarrow> System" where
  "step a s =
     (case a of
        Fire \<Rightarrow> fire s
      | Advance dt \<Rightarrow> advance dt s
      | PriceFeed p \<Rightarrow> s\<lparr>currentPrice := p\<rparr>
      | Start \<Rightarrow> start s
      | Stop \<Rightarrow> stop s
      | Predict d a \<Rightarrow> (case makePrediction d a s of Inl e \<Rightarrow> s | Inr s1 \<Rightarrow> s1)
      | ServicePredict d a u \<Rightarrow>
          (case serviceMakePrediction d a u s of Inl e \<Rightarrow> s | Inr (p, s1) \<Rightarrow> s1))"

definition run :: "action list \<Rightarrow> System \<Rightarrow> System" where
  "run as s = fold step as s"

text \<open>The predictions a run hands to the ledger: those \<open>GameService.makePrediction\<close> returned.\<close>

definition accepted :: "action \<Rightarrow> System \<Rightarrow> Prediction list" where
  "accepted a s =
     (case a of
        Predict d x \<Rightarrow>
          (case makePrediction d x s of
             Inl e \<Rightarrow> []
           | Inr s1 \<Rightarrow> [newPrediction d x (gameUserId (game s)) (clock s)])
      | ServicePredict d x u \<Rightarrow>
          (case serviceMakePrediction d x u s of Inl e \<Rightarrow> [] | Inr (p, s1) \<Rightarrow> [p])
      | _ \<Rightarrow> [])"

fun acceptedBy :: "action list \<Rightarrow> System \<Rightarrow> Prediction list" where
  "acceptedBy [] s = []"
| "acceptedBy (a # as) s = accepted a s @ acceptedBy as (step a s)"

definition unsettled :: "System \<Rightarrow> Prediction list" where
  "unsettled s =
     (case currentRound (service s) of
        None \<Rightarrow> []
      | Some r \<Rightarrow> if isActive r then predictions r else [])"

section \<open>Notions used in the statements\<close>

text \<open>
  What two settlements are compared on: an outcome without its timestamp and its
  multiplier reward, together with the payout the session derives from it.
\<close>

definition outcomeView :: "GameResult \<Rightarrow> Prediction \<times> real \<times> real \<times> GameResultStatus \<times> int" where
  "outcomeView r = (prediction r, startPrice r, endPrice r, status r, amountChange r)"

text \<open>
  The results that \<open>s'\<close> stores beyond those of \<open>s\<close>.
\<close>

definition newResults :: "System \<Rightarrow> System \<Rightarrow> GameResult list" where
  "newResults s s' = drop (length (results (service s))) (results (service s'))"

text \<open>
  The system that \<open>main.tsx\<close> builds: a chart at price 150, a game service with its
  default round duration (60000), interval (5000) and multiplier (1.8), a game with an
  initial balance of 10000 for the user \<open>player1\<close>; the clock starts at 0. The
  multipliers 1.8 and 1.95 stand for the doubles nearest to them; they enter the reward
  of an outcome only, which no statement below evaluates.
\<close>

definition exampleConfig :: GameConfig where
  "exampleConfig =
     \<lparr>cfgRoundDurationMs = 60000, cfgRoundIntervalMs = 5000, cfgWinMultiplier = 1.95,
      initialBalance = 10000\<rparr>"

definition exampleSystem :: System where
  "exampleSystem = newSystem 0 150 60000 5000 1.8 exampleConfig ''player1''"

definition exampleBet :: "PredictionDirection \<Rightarrow> Prediction" where
  "exampleBet d = newPrediction d 500 ''player1'' 0"

text \<open>
  The example system after \<open>start\<close>, and after a prediction of the user.
\<close>

definition startedSystem :: System where
  "startedSystem = start exampleSystem"

definition bettingSystem :: "PredictionDirection \<Rightarrow> real \<Rightarrow> System" where
  "bettingSystem d a = step (Predict d a) startedSystem"

text \<open>
  Invariants of the event loop. Timer identifiers are fresh and distinct; the countdown
  timer is the one the game remembers, and exists only while the game is running; the
  round cycle is a single interval of period duration + interval that is always armed,
  a \<open>startNewRound\<close> timeout is pending exactly while the current round is closed,
  and it fires before the cycle does.
\<close>

definition timersOk :: "System \<Rightarrow> bool" where
  "timersOk s =
     ((\<forall>t\<in>set (timers s). seq t < nextId s \<and> tid t < nextId s) \<and>
      distinct (map tid (timers s)))"

definition countdownOk :: "System \<Rightarrow> bool" where
  "countdownOk s =
     ((\<forall>t\<in>set (timers s).
         (callback t = CountdownTick) = (countdownIntervalId (game s) = Some (tid t))) \<and>
      (\<forall>i. countdownIntervalId (game s) = Some i \<longrightarrow> i < nextId s) \<and>
      (gstate (game s) \<noteq> Running \<longrightarrow> countdownIntervalId (game s) = None))"

definition roundOpen :: "System \<Rightarrow> bool" where
  "roundOpen s = (case currentRound (service s) of None \<Rightarrow> False | Some r \<Rightarrow> isActive r)"

definition schedTimers :: "System \<Rightarrow> timer list" where
  "schedTimers s = filter (\<lambda>t. callback t \<noteq> CountdownTick) (timers s)"

definition schedulerOk :: "System \<Rightarrow> bool" where
  "schedulerOk s =
     ((\<forall>t\<in>set (schedTimers s). callback t = StartNewRound \<longrightarrow> period t = None) \<and>
      (\<forall>t\<in>set (schedTimers s). callback t = RoundCycle \<longrightarrow>
          period t = Some (roundDurationMs (service s) + roundIntervalMs (service s))) \<and>
      (\<forall>a\<in>set (schedTimers s). \<forall>c\<in>set (schedTimers s).
          callback a = StartNewRound \<longrightarrow> callback c = RoundCycle \<longrightarrow> earlier a c) \<and>
      (\<forall>c\<in>set (schedTimers s). \<forall>c'\<in>set (schedTimers s).
          callback c = RoundCycle \<longrightarrow> callback c' = RoundCycle \<longrightarrow> c = c') \<and>
      (\<forall>a\<in>set (schedTimers s). \<forall>a'\<in>set (schedTimers s).
          callback a = StartNewRound \<longrightarrow> callback a' = StartNewRound \<longrightarrow> a = a') \<and>
      currentRound (service s) \<noteq> None \<and>
      roundOpen s = (\<forall>t\<in>set (schedTimers s). callback t \<noteq> StartNewRound) \<and>
      subscribers (service s) = 1 \<and>
      (\<exists>t\<in>set (schedTimers s). callback t = RoundCycle))"

definition wellFormed :: "System \<Rightarrow> bool" where
  "wellFormed s = (timersOk s \<and> countdownOk s \<and> schedulerOk s)"

text \<open>
  The predictions of the stored outcomes followed by those still waiting in the open
  round.
\<close>

definition ledger :: "System \<Rightarrow> Prediction list" where
  "ledger s = map prediction (results (service s)) @ unsettled s"

text \<open>
  \<open>settles g g'\<close>: the event stream of \<open>g'\<close> extends that of \<open>g\<close> by
  \<open>balance_changed\<close> and \<open>result\<close> events only.
\<close>

definition settlementEvent :: "GameEvent \<Rightarrow> bool" where
  "settlementEvent e =
     (case e of BalanceChanged b c \<Rightarrow> True | Result r k \<Rightarrow> True | _ \<Rightarrow> False)"

definition settles :: "Game \<Rightarrow> Game \<Rightarrow> bool" where
  "settles g g' =
     (take (length (events g)) (events g') = events g \<and>
      list_all settlementEvent (drop (length (events g)) (events g')))"

text \<open>
  The outcomes carried by the \<open>result\<close> events of a stream, and the stored outcomes
  of the session's user.
\<close>

fun resultsOf :: "GameEvent list \<Rightarrow> GameResult list" where
  "resultsOf [] = []"
| "resultsOf (Result r k # es) = r # resultsOf es"
| "resultsOf (e # es) = resultsOf es"

definition delivered :: "System \<Rightarrow> GameResult list" where
  "delivered s = resultsOf (events (game s))"

definition ownResults :: "System \<Rightarrow> GameResult list" where
  "ownResults s =
     filter (\<lambda>r. userId (prediction r) = gameUserId (game s)) (results (service s))"

text \<open>
  The events that \<open>s'\<close> has emitted beyond those of \<open>s\<close>, the changes carried by
  the \<open>balance_changed\<close> events of a stream, and the signed payout that
  \<open>handleGameResult\<close> applies for an outcome.
\<close>

definition newEvents :: "System \<Rightarrow> System \<Rightarrow> GameEvent list" where
  "newEvents s s' = drop (length (events (game s))) (events (game s'))"

fun changesOf :: "GameEvent list \<Rightarrow> real list" where
  "changesOf [] = []"
| "changesOf (BalanceChanged b c # es) = c # changesOf es"
| "changesOf (e # es) = changesOf es"

definition signedPayout :: "GameResult \<Rightarrow> real" where
  "signedPayout r = (if status r = Win then of_int (amountChange r) else - of_int (amountChange r))"

text \<open>
  The outcomes that \<open>endCurrentRound\<close> builds when it runs at time \<open>now\<close>: one for
  each prediction of the current round, at the current price of the chart.
\<close>

definition outcomesAt :: "nat \<Rightarrow> System \<Rightarrow> GameResult list" where
  "outcomesAt now s =
     (case currentRound (service s) of
        None \<Rightarrow> []
      | Some r \<Rightarrow> map (buildResult now (winMultiplier (service s)) (roundStartPrice r)
                       (currentPrice s)) (predictions r))"

definition own :: "System \<Rightarrow> GameResult \<Rightarrow> bool" where
  "own s r = (userId (prediction r) = gameUserId (game s))"

section \<open>Properties\<close>

subsection \<open>Double arithmetic\<close>

lemma normalise_up:
  "2 ^ 52 \<le> m * 2 ^ k \<Longrightarrow> m * 2 ^ k < 2 ^ 53 \<Longrightarrow> - 1074 \<le> e - int k \<Longrightarrow> k \<le> fuel \<Longrightarrow>
   normalise fuel m e = (m * 2 ^ k, e - int k)"
proof (induction k arbitrary: fuel m e)
  case 0
  then show ?case by (simp add: normalise.simps)
next
  case (Suc k)
  have lt: "m < 2 ^ 52"
  proof (cases "0 \<le> m")
    case True
    have "m * 1 \<le> m * 2 ^ k" by (rule mult_left_mono) (use True in simp_all)
    moreover have "m * 2 ^ k < 2 ^ 52" using Suc.prems(2) by simp
    ultimately show ?thesis by simp
  next
    case False
    then have "m < 0" by simp
    also have "(0::real) < 2 ^ 52" by simp
    finally show ?thesis .
  qed
  have f: "fuel \<noteq> 0" "k \<le> fuel - 1" using Suc.prems(4) by simp_all
  have e: "- 1074 < e" "- 1074 \<le> (e - 1) - int k" using Suc.prems(3) by simp_all
  have "normalise fuel m e = normalise (fuel - 1) (m * 2) (e - 1)"
    using lt f e by (subst normalise.simps) simp
  also have "\<dots> = (m * 2 * 2 ^ k, (e - 1) - int k)"
    by (rule Suc.IH) (use Suc.prems f e in \<open>simp_all add: mult.assoc\<close>)
  finally show ?case by (simp add: mult.assoc)
qed

lemma fl_eval_up:
  assumes "x \<noteq> 0" "2 ^ 52 \<le> \<bar>x\<bar> * 2 ^ k" "\<bar>x\<bar> * 2 ^ k < 2 ^ 53" "k \<le> 1074"
  shows "fl x = sgn x * of_int (roundEven (\<bar>x\<bar> * 2 ^ k)) / 2 ^ k"
proof -
  have "normalise 2200 \<bar>x\<bar> 0 = (\<bar>x\<bar> * 2 ^ k, 0 - int k)"
    by (rule normalise_up) (use assms in simp_all)
  then show ?thesis using assms(1) by (simp add: fl_def power_int_minus divide_inverse)
qed

lemma fl_zero [simp]: "fl 0 = 0"
  by (simp add: fl_def split: prod.splits)

lemma normalise_nonneg: "0 \<le> m \<Longrightarrow> 0 \<le> fst (normalise fuel m e)"
proof (induction fuel m e rule: normalise.induct)
  case (1 fuel m e)
  show ?case
    by (subst normalise.simps) (use 1 in auto)
qed

lemma roundEven_nonneg: "0 \<le> m \<Longrightarrow> 0 \<le> roundEven m"
  by (auto simp: roundEven_def Let_def)

lemma fl_abs: "fl \<bar>x\<bar> = \<bar>fl x\<bar>"
proof (cases "x = 0")
  case True
  then show ?thesis by simp
next
  case False
  obtain m e where me: "normalise 2200 \<bar>x\<bar> 0 = (m, e)" by (cases "normalise 2200 \<bar>x\<bar> 0")
  have "0 \<le> fst (normalise 2200 \<bar>x\<bar> 0)" by (rule normalise_nonneg) simp
  then have "0 \<le> roundEven m" using me by (simp add: roundEven_nonneg)
  then show ?thesis
    using False by (simp add: fl_def me abs_mult abs_sgn_eq)
qed

lemma fl_minus: "fl (- x) = - fl x"
  by (simp add: fl_def split: prod.splits)

lemma fl_exact:
  assumes "x \<noteq> 0" "2 ^ 52 \<le> \<bar>x\<bar> * 2 ^ k" "\<bar>x\<bar> * 2 ^ k < 2 ^ 53" "k \<le> 1074"
    and "\<bar>x\<bar> * 2 ^ k \<in> \<int>"
  shows "fl x = x"
proof -
  from assms(5) obtain z :: int where z: "\<bar>x\<bar> * 2 ^ k = of_int z" by (auto elim: Ints_cases)
  have "roundEven (of_int z) = z" by (simp add: roundEven_def)
  then have "fl x = sgn x * (\<bar>x\<bar> * 2 ^ k) / 2 ^ k"
    unfolding fl_eval_up [OF assms(1-4)] z by simp
  also have "\<dots> = sgn x * \<bar>x\<bar>" by simp
  also have "\<dots> = x" by (simp add: sgn_mult_abs)
  finally show ?thesis .
qed

text \<open>
  The payouts of three concrete rounds, computed in doubles: from 150 to 153 with a
  stake of 500, from 150 to 450 with a stake of 10000, and from 140 to 135 with a stake
  of 70, where the exact quotient 2.5 would round to 3 but the doubles give
  2.4999999999999996 and the payout is 2.
\<close>

lemma pct_150_153: "dmul (ddiv (dsub 153 150) 150) 100 = 2"
proof -
  have 1: "dsub 153 150 = 3"
    unfolding dsub_def by (subst fl_exact [of _ 51]) simp_all
  have 2: "ddiv 3 150 = 5764607523034235 / 2 ^ 58"
    unfolding ddiv_def by (subst fl_eval_up [of _ 58]) (simp_all add: roundEven_def)
  have 3: "dmul (5764607523034235 / 2 ^ 58) 100 = 2"
    unfolding dmul_def by (subst fl_eval_up [of _ 51]) (simp_all add: roundEven_def)
  show ?thesis by (simp only: 1 2 3)
qed

lemma payout_500_2: "round (ddiv (dmul 500 2) 100) = 10"
proof -
  have 1: "dmul 500 2 = 1000"
    unfolding dmul_def by (subst fl_exact [of _ 43]) simp_all
  have 2: "ddiv 1000 100 = 10"
    unfolding ddiv_def by (subst fl_exact [of _ 49]) simp_all
  show ?thesis by (simp only: 1 2) simp
qed

lemma pct_150_450: "dmul (ddiv (dsub 450 150) 150) 100 = 200"
proof -
  have 1: "dsub 450 150 = 300"
    unfolding dsub_def by (subst fl_exact [of _ 44]) simp_all
  have 2: "ddiv 300 150 = 2"
    unfolding ddiv_def by (subst fl_exact [of _ 51]) simp_all
  have 3: "dmul 2 100 = 200"
    unfolding dmul_def by (subst fl_exact [of _ 45]) simp_all
  show ?thesis by (simp only: 1 2 3)
qed

lemma payout_10000_200: "round (ddiv (dmul 10000 200) 100) = 20000"
proof -
  have 1: "dmul 10000 200 = 2000000"
    unfolding dmul_def by (subst fl_exact [of _ 32]) simp_all
  have 2: "ddiv 2000000 100 = 20000"
    unfolding ddiv_def by (subst fl_exact [of _ 38]) simp_all
  show ?thesis by (simp only: 1 2) simp
qed

lemma pct_140_135: "dmul (ddiv \<bar>dsub 135 140\<bar> 140) 100 = 8042142191733028 / 2 ^ 51"
proof -
  have 1: "dsub 135 140 = - 5"
    unfolding dsub_def by (subst fl_exact [of _ 50]) simp_all
  have 2: "ddiv 5 140 = 5146971002709138 / 2 ^ 57"
    unfolding ddiv_def by (subst fl_eval_up [of _ 57]) (simp_all add: roundEven_def)
  have 3: "dmul (5146971002709138 / 2 ^ 57) 100 = 8042142191733028 / 2 ^ 51"
    unfolding dmul_def by (subst fl_eval_up [of _ 51]) (simp_all add: roundEven_def)
  show ?thesis unfolding 1 by (simp only: abs_minus abs_numeral 2 3)
qed

lemma payout_70_140_135: "round (ddiv (dmul 70 (8042142191733028 / 2 ^ 51)) 100) = 2"
proof -
  have 4: "dmul 70 (8042142191733028 / 2 ^ 51) = 8796093022207999 / 2 ^ 45"
    unfolding dmul_def by (subst fl_eval_up [of _ 45]) (simp_all add: roundEven_def)
  have 5: "ddiv (8796093022207999 / 2 ^ 45) 100 = 5629499534213119 / 2 ^ 51"
    unfolding ddiv_def by (subst fl_eval_up [of _ 51]) (simp_all add: roundEven_def)
  show ?thesis by (simp only: 4 5) (simp add: round_def)
qed

lemma payout_140_135:
  "round (ddiv (dmul 70 (dmul (ddiv \<bar>dsub 135 140\<bar> 140) 100)) 100) = 2"
  by (simp only: pct_140_135 payout_70_140_135)

lemma balance_10000:
  "dadd 10000 10 = 10010" "dadd 10000 2 = 10002" "dadd 10000 (- 20000) = - 10000"
  unfolding dadd_def
  by ((subst fl_exact [of _ 39]), simp_all)+

lemma fl_hundredth: "(1 / 100 :: real) \<le> fl (1 / 100)"
proof -
  have "fl (1 / 100) = 5764607523034235 / 2 ^ 59"
    by (subst fl_eval_up [of _ 59]) (simp_all add: roundEven_def)
  then show ?thesis by simp
qed

lemma abs_pct:
  assumes "0 < sp"
  shows "\<bar>dmul (ddiv (dsub cp sp) sp) 100\<bar> = dmul (ddiv \<bar>dsub cp sp\<bar> sp) 100"
proof -
  have "\<bar>dmul (ddiv (dsub cp sp) sp) 100\<bar> = fl \<bar>fl (dsub cp sp / sp) * 100\<bar>"
    by (simp only: dmul_def ddiv_def fl_abs)
  also have "\<bar>fl (dsub cp sp / sp) * 100\<bar> = fl \<bar>dsub cp sp / sp\<bar> * 100"
    by (simp only: abs_mult fl_abs abs_numeral)
  also have "\<bar>dsub cp sp / sp\<bar> = \<bar>dsub cp sp\<bar> / sp"
    using assms by (simp add: abs_divide)
  finally show ?thesis by (simp add: dmul_def ddiv_def)
qed

subsection \<open>The session and the rounds\<close>

lemma exampleSystem_eq:
  "exampleSystem =
     \<lparr>clock = 0,
      timers = [\<lparr>tid = 1, seq = 1, due = 65000, period = Some 65000, callback = RoundCycle\<rparr>],
      nextId = 2, currentPrice = 150,
      service = \<lparr>currentRound = Some \<lparr>startTime = 0, endTime = 60000, roundStartPrice = 150,
                                       predictions = [], isActive = True\<rparr>,
                 results = [], subscribers = 1, roundDurationMs = 60000,
                 roundIntervalMs = 5000, intervalId = Some 1, winMultiplier = 1.8\<rparr>,
      game = \<lparr>config = exampleConfig, gstate = Waiting, balance = 10000,
              gameUserId = ''player1'', countdownIntervalId = None, winStreak = 0,
              events = []\<rparr>\<rparr>"
  by (simp add: exampleSystem_def exampleConfig_def newSystem_def subscribeToResults_def
      startGameCycle_def newGameService_def newGame_def startNewRound_def setInterval_def
      newGameRound_def)

lemma status_newGameResult:
  "cp \<noteq> 0 \<Longrightarrow> status (newGameResult p sp (Some cp) ts) =
     (if direction p = (if cp > sp then Up else Down) then Win else Lose)"
  by (simp add: newGameResult_def truthy_def orElse_def calculateStatus_def isCorrect_def
      getActualDirection_def)

lemma buildResult_fields:
  "prediction (buildResult now w sp cp p) = p"
  "startPrice (buildResult now w sp cp p) = sp"
  "cp \<noteq> 0 \<Longrightarrow> endPrice (buildResult now w sp cp p) = cp"
  "cp \<noteq> 0 \<Longrightarrow> status (buildResult now w sp cp p) =
     (if direction p = (if cp > sp then Up else Down) then Win else Lose)"
  by (simp_all add: buildResult_def Let_def setReward_def status_newGameResult)
     (simp_all add: newGameResult_def orElse_def)

text \<open>
  Claim C5. When the settlement price equals the (positive) reference price the actual
  direction is Down: a Down prediction on a flat round wins, an Up prediction loses.
\<close>

theorem flat_round_counts_as_down:
  "0 < p \<Longrightarrow>
     getActualDirection (newGameResult pr p (Some p) ts) = Down \<and>
     (direction pr = Down \<longrightarrow> status (newGameResult pr p (Some p) ts) = Win) \<and>
     (direction pr = Up \<longrightarrow> status (newGameResult pr p (Some p) ts) = Lose)"
  by (simp add: newGameResult_def truthy_def orElse_def calculateStatus_def isCorrect_def
      getActualDirection_def)

theorem flat_round_counts_as_down_witness:
  "(0::real) < 150 \<and>
   getActualDirection (newGameResult (exampleBet Down) 150 (Some 150) 65000) = Down \<and>
   status (newGameResult (exampleBet Down) 150 (Some 150) 65000) = Win \<and>
   status (newGameResult (exampleBet Up) 150 (Some 150) 65000) = Lose"
  using flat_round_counts_as_down [of 150 "exampleBet Down" 65000]
        flat_round_counts_as_down [of 150 "exampleBet Up" 65000]
  by (simp add: exampleBet_def newPrediction_def)

text \<open>
  Claim C8. Every tick of the price feed generates a strictly positive price (at least
  0.01), whatever the previous price, the volatility, the trend and the random draw, and
  this price is the one appended to the buffer and remembered as last price.
\<close>

theorem generated_price_positive:
  "price (fst (generateNextDataPoint u now cs)) > 0 \<and>
   price (fst (generateNextDataPoint u now cs)) \<ge> 0.01 \<and>
   lastPrice (snd (generateNextDataPoint u now cs)) = price (fst (generateNextDataPoint u now cs)) \<and>
   getLatestPoint (chartData (snd (generateNextDataPoint u now cs))) =
     Some (fst (generateNextDataPoint u now cs))"
proof -
  let ?x = "dadd (dadd (lastPrice cs) (dmul (dmul (lastPrice cs) (volatility cs)) (dsub (dmul u 2) 1)))
              (dmul (lastPrice cs) (trend cs))"
  have p: "price (fst (generateNextDataPoint u now cs)) = max (fl (1 / 100)) ?x"
    by (simp add: generateNextDataPoint_def Let_def)
  have "(1 / 100 :: real) \<le> max (fl (1 / 100)) ?x"
    using fl_hundredth by (simp add: max_def)
  then have 1: "price (fst (generateNextDataPoint u now cs)) \<ge> 0.01" unfolding p by simp
  then have 2: "price (fst (generateNextDataPoint u now cs)) > 0" by simp
  have 3: "lastPrice (snd (generateNextDataPoint u now cs)) =
             price (fst (generateNextDataPoint u now cs))"
    "getLatestPoint (chartData (snd (generateNextDataPoint u now cs))) =
       Some (fst (generateNextDataPoint u now cs))"
    by (simp_all add: generateNextDataPoint_def Let_def addDataPoint_def getLatestPoint_def)
  show ?thesis using 1 2 3 by simp
qed

lemma winStreak_handleGameResult:
  "winStreak (handleGameResult r g) =
     (if userId (prediction r) \<noteq> gameUserId g then winStreak g
      else if status r = Win then winStreak g + 1 else 0)"
  by (simp add: handleGameResult_def Let_def emitEvent_def updateBalance_def)

lemma balance_handleGameResult:
  "balance (handleGameResult r g) =
     (if userId (prediction r) \<noteq> gameUserId g then balance g
      else if status r = Win then dadd (balance g) (of_int (amountChange r))
      else dadd (balance g) (- of_int (amountChange r)))"
  by (simp add: handleGameResult_def Let_def emitEvent_def updateBalance_def)

lemma game_clearInterval [simp]: "game (clearInterval i s) = game s"
  by (simp add: clearInterval_def)

lemma game_rearm [simp]: "game (rearm t ms s) = game s"
  by (simp add: rearm_def)





lemma startedSystem_eq:
  "startedSystem =
     \<lparr>clock = 0,
      timers = [\<lparr>tid = 1, seq = 1, due = 65000, period = Some 65000, callback = RoundCycle\<rparr>,
                \<lparr>tid = 2, seq = 2, due = 1000, period = Some 1000, callback = CountdownTick\<rparr>],
      nextId = 3, currentPrice = 150,
      service = \<lparr>currentRound = Some \<lparr>startTime = 0, endTime = 60000, roundStartPrice = 150,
                                       predictions = [], isActive = True\<rparr>,
                 results = [], subscribers = 1, roundDurationMs = 60000,
                 roundIntervalMs = 5000, intervalId = Some 1, winMultiplier = 1.8\<rparr>,
      game = \<lparr>config = exampleConfig, gstate = Running, balance = 10000,
              gameUserId = ''player1'', countdownIntervalId = Some 2, winStreak = 0,
              events = [RoundStart 0 150]\<rparr>\<rparr>"
  by (simp add: startedSystem_def exampleSystem_eq start_def getCurrentRound_def emitEvent_def
      startCountdown_def setInterval_def)

lemma bettingSystem_eq:
  "0 < a \<Longrightarrow> a \<le> 10000 \<Longrightarrow> bettingSystem d a =
     \<lparr>clock = 0,
      timers = [\<lparr>tid = 1, seq = 1, due = 65000, period = Some 65000, callback = RoundCycle\<rparr>,
                \<lparr>tid = 2, seq = 2, due = 1000, period = Some 1000, callback = CountdownTick\<rparr>],
      nextId = 3, currentPrice = 150,
      service = \<lparr>currentRound = Some \<lparr>startTime = 0, endTime = 60000, roundStartPrice = 150,
                                       predictions = [newPrediction d a ''player1'' 0], isActive = True\<rparr>,
                 results = [], subscribers = 1, roundDurationMs = 60000,
                 roundIntervalMs = 5000, intervalId = Some 1, winMultiplier = 1.8\<rparr>,
      game = \<lparr>config = exampleConfig, gstate = Running, balance = 10000,
              gameUserId = ''player1'', countdownIntervalId = Some 2, winStreak = 0,
              events = [RoundStart 0 150, PredictionMade d a 150]\<rparr>\<rparr>"
  by (simp add: bettingSystem_def startedSystem_eq step_def makePrediction_def
      serviceMakePrediction_def addPrediction_def emitEvent_def Let_def)

lemma stop_bettingSystem:
  "0 < a \<Longrightarrow> a \<le> 10000 \<Longrightarrow> stop (bettingSystem d a) =
     \<lparr>clock = 0,
      timers = [\<lparr>tid = 1, seq = 1, due = 65000, period = Some 65000, callback = RoundCycle\<rparr>],
      nextId = 3, currentPrice = 150,
      service = \<lparr>currentRound = Some \<lparr>startTime = 0, endTime = 60000, roundStartPrice = 150,
                                       predictions = [newPrediction d a ''player1'' 0], isActive = True\<rparr>,
                 results = [], subscribers = 1, roundDurationMs = 60000,
                 roundIntervalMs = 5000, intervalId = Some 1, winMultiplier = 1.8\<rparr>,
      game = \<lparr>config = exampleConfig, gstate = Finished, balance = 10000,
              gameUserId = ''player1'', countdownIntervalId = None, winStreak = 0,
              events = [RoundStart 0 150, PredictionMade d a 150]\<rparr>\<rparr>"
  by (simp add: bettingSystem_eq stop_def stopCountdown_def clearInterval_def)

lemmas wf_defs = wellFormed_def timersOk_def countdownOk_def schedulerOk_def roundOpen_def
  schedTimers_def

lemma schedulerOk_cong:
  assumes "set (schedTimers s') = set (schedTimers s)"
    and "roundDurationMs (service s') = roundDurationMs (service s)"
    and "roundIntervalMs (service s') = roundIntervalMs (service s)"
    and "(currentRound (service s') = None) = (currentRound (service s) = None)"
    and "roundOpen s' = roundOpen s"
    and "subscribers (service s') = subscribers (service s)"
  shows "schedulerOk s' = schedulerOk s"
  using assms by (simp add: schedulerOk_def)

lemma nextTimer_None: "nextTimer ts = None \<longleftrightarrow> ts = []"
  by (induction ts) (auto split: option.splits)

lemma earlier_asym: "earlier a b \<Longrightarrow> \<not> earlier b a"
  unfolding earlier_def by linarith

lemma earlier_irrefl: "\<not> earlier a a"
  unfolding earlier_def by linarith

lemma not_earlier_trans: "\<not> earlier u x \<Longrightarrow> \<not> earlier v u \<Longrightarrow> \<not> earlier v x"
  unfolding earlier_def by linarith

lemma nextTimer_least:
  "nextTimer ts = Some t \<Longrightarrow> t \<in> set ts \<and> (\<forall>u\<in>set ts. \<not> earlier u t)"
proof (induction ts arbitrary: t)
  case Nil
  then show ?case by simp
next
  case (Cons x xs)
  show ?case
  proof (cases "nextTimer xs")
    case None
    then have xs: "xs = []" by (simp add: nextTimer_None)
    from None Cons.prems have "t = x" by simp
    then show ?thesis by (simp add: xs earlier_irrefl)
  next
    case (Some u)
    from Cons.IH [OF Some] have u: "u \<in> set xs" "\<forall>v\<in>set xs. \<not> earlier v u" by auto
    show ?thesis
    proof (cases "earlier u x")
      case True
      with Some Cons.prems have t: "t = u" by simp
      have "\<not> earlier x u" using True by (rule earlier_asym)
      with u show ?thesis unfolding t by simp
    next
      case False
      with Some Cons.prems have t: "t = x" by simp
      have "\<forall>v\<in>set xs. \<not> earlier v x"
        using u(2) False not_earlier_trans by blast
      then show ?thesis unfolding t by (simp add: earlier_irrefl)
    qed
  qed
qed

lemma wellFormed_cong:
  assumes "timers s' = timers s" "nextId s' = nextId s"
    and "countdownIntervalId (game s') = countdownIntervalId (game s)"
    and "gstate (game s') = gstate (game s)"
    and "roundDurationMs (service s') = roundDurationMs (service s)"
    and "roundIntervalMs (service s') = roundIntervalMs (service s)"
    and "(currentRound (service s') = None) = (currentRound (service s) = None)"
    and "roundOpen s' = roundOpen s"
    and "subscribers (service s') = subscribers (service s)"
  shows "wellFormed s' = wellFormed s"
  by (simp add: wellFormed_def timersOk_def countdownOk_def schedulerOk_def schedTimers_def assms)

lemma wellFormed_newSystem: "wellFormed (newSystem now p d i w c u)"
  by (simp add: wf_defs newSystem_def
      subscribeToResults_def startGameCycle_def newGameService_def newGame_def startNewRound_def
      setInterval_def newGameRound_def)

lemma wellFormed_advance: "wellFormed s \<Longrightarrow> wellFormed (advance dt s)"
proof -
  have "wellFormed (advance dt s) = wellFormed s"
    by (rule wellFormed_cong) (simp_all add: advance_def roundOpen_def split: option.splits)
  then show "wellFormed s \<Longrightarrow> wellFormed (advance dt s)" by simp
qed

lemma wellFormed_priceFeed: "wellFormed s \<Longrightarrow> wellFormed (s\<lparr>currentPrice := p\<rparr>)"
proof -
  have "wellFormed (s\<lparr>currentPrice := p\<rparr>) = wellFormed s"
    by (rule wellFormed_cong) (simp_all add: roundOpen_def)
  then show "wellFormed s \<Longrightarrow> wellFormed (s\<lparr>currentPrice := p\<rparr>)" by simp
qed

lemma serviceMakePrediction_Inr:
  "serviceMakePrediction d a u s = Inr (p, s1) \<Longrightarrow>
     \<exists>r. currentRound (service s) = Some r \<and> isActive r \<and> p = newPrediction d a u (clock s) \<and>
         s1 = s\<lparr>service := (service s)\<lparr>currentRound := Some (r\<lparr>predictions := predictions r @ [p]\<rparr>)\<rparr>\<rparr>"
  by (auto simp: serviceMakePrediction_def Let_def addPrediction_def split: option.splits if_splits)

lemma wellFormed_servicePredict:
  assumes "wellFormed s" "serviceMakePrediction d a u s = Inr (p, s1)"
  shows "wellFormed s1"
proof -
  from serviceMakePrediction_Inr [OF assms(2)] obtain r where
    r: "currentRound (service s) = Some r" "isActive r"
    and s1: "s1 = s\<lparr>service := (service s)\<lparr>currentRound := Some (r\<lparr>predictions := predictions r @ [p]\<rparr>)\<rparr>\<rparr>"
    by blast
  have "wellFormed s1 = wellFormed s"
    by (rule wellFormed_cong) (simp_all add: s1 r roundOpen_def)
  with assms(1) show ?thesis by simp
qed

lemma makePrediction_Inr:
  "makePrediction d a s = Inr s2 \<Longrightarrow>
     \<exists>p s1. serviceMakePrediction d a (gameUserId (game s)) s = Inr (p, s1) \<and>
        gstate (game s) = Running \<and> 0 < a \<and> a \<le> balance (game s) \<and>
        s2 = s1\<lparr>game := emitEvent (PredictionMade d a (currentPrice s1)) (game s1)\<rparr>"
  by (auto simp: makePrediction_def split: if_splits sum.splits)

lemma wellFormed_emit:
  "wellFormed s \<Longrightarrow> wellFormed (s\<lparr>game := emitEvent e (game s)\<rparr>)"
proof -
  have "wellFormed (s\<lparr>game := emitEvent e (game s)\<rparr>) = wellFormed s"
    by (rule wellFormed_cong) (simp_all add: roundOpen_def emitEvent_def)
  then show "wellFormed s \<Longrightarrow> wellFormed (s\<lparr>game := emitEvent e (game s)\<rparr>)" by simp
qed

lemma wellFormed_predict:
  assumes "wellFormed s" "makePrediction d a s = Inr s2"
  shows "wellFormed s2"
proof -
  from makePrediction_Inr [OF assms(2)] obtain p s1 where
    1: "serviceMakePrediction d a (gameUserId (game s)) s = Inr (p, s1)"
    and 2: "s2 = s1\<lparr>game := emitEvent (PredictionMade d a (currentPrice s1)) (game s1)\<rparr>"
    by blast
  from wellFormed_servicePredict [OF assms(1) 1] show ?thesis
    unfolding 2 by (rule wellFormed_emit)
qed

lemma stop_eq:
  "stop s =
     (if gstate (game s) \<noteq> Running then s
      else case countdownIntervalId (game s) of
             None \<Rightarrow> s\<lparr>game := (game s)\<lparr>gstate := Finished\<rparr>\<rparr>
           | Some i \<Rightarrow> s\<lparr>timers := filter (\<lambda>t. tid t \<noteq> i) (timers s),
                          game := (game s)\<lparr>gstate := Finished, countdownIntervalId := None\<rparr>\<rparr>)"
  by (simp add: stop_def stopCountdown_def clearInterval_def split: option.splits)

lemma wellFormed_stop:
  assumes "wellFormed s"
  shows "wellFormed (stop s)"
proof (cases "gstate (game s) = Running")
  case False
  with assms show ?thesis by (simp add: stop_eq)
next
  case True
  show ?thesis
  proof (cases "countdownIntervalId (game s)")
    case None
    have "stop s = s\<lparr>game := (game s)\<lparr>gstate := Finished\<rparr>\<rparr>"
      using True None by (simp add: stop_eq)
    moreover have "timersOk (s\<lparr>game := (game s)\<lparr>gstate := Finished\<rparr>\<rparr>)"
      using assms by (simp add: wellFormed_def timersOk_def)
    moreover have "countdownOk (s\<lparr>game := (game s)\<lparr>gstate := Finished\<rparr>\<rparr>)"
      using assms None by (simp add: wellFormed_def countdownOk_def)
    moreover have "schedulerOk (s\<lparr>game := (game s)\<lparr>gstate := Finished\<rparr>\<rparr>) = schedulerOk s"
      by (rule schedulerOk_cong) (simp_all add: schedTimers_def roundOpen_def)
    ultimately show ?thesis using assms by (simp add: wellFormed_def)
  next
    case (Some i)
    let ?s' = "s\<lparr>timers := filter (\<lambda>t. tid t \<noteq> i) (timers s),
                 game := (game s)\<lparr>gstate := Finished, countdownIntervalId := None\<rparr>\<rparr>"
    have eq: "stop s = ?s'" using True Some by (simp add: stop_eq)
    have cd: "\<forall>t\<in>set (timers s). (callback t = CountdownTick) = (i = tid t)"
      using assms Some by (simp add: wellFormed_def countdownOk_def)
    have 1: "timersOk ?s'"
      using assms by (auto simp: wellFormed_def timersOk_def distinct_map_filter)
    have 2: "countdownOk ?s'"
      using cd by (auto simp: countdownOk_def)
    have "set (schedTimers ?s') = set (schedTimers s)"
      using cd by (auto simp: schedTimers_def)
    then have "schedulerOk ?s' = schedulerOk s"
      by (rule schedulerOk_cong) (simp_all add: roundOpen_def)
    with assms 1 2 show ?thesis by (simp add: eq wellFormed_def)
  qed
qed

lemma start_eq:
  assumes "gstate (game s) \<noteq> Running" "countdownIntervalId (game s) = None"
    and "currentRound (service s) = Some r"
  shows "start s =
     s\<lparr>timers := timers s @ [\<lparr>tid = nextId s, seq = nextId s, due = clock s + 1000,
                               period = Some 1000, callback = CountdownTick\<rparr>],
       nextId := nextId s + 1,
       game := (game s)\<lparr>gstate := Running,
                        events := events (game s) @ [RoundStart (startTime r) (roundStartPrice r)],
                        countdownIntervalId := Some (nextId s)\<rparr>\<rparr>"
  using assms
  by (simp add: start_def getCurrentRound_def emitEvent_def startCountdown_def setInterval_def)

lemma wellFormed_start:
  assumes "wellFormed s"
  shows "wellFormed (start s)"
proof (cases "gstate (game s) = Running")
  case True
  with assms show ?thesis by (simp add: start_def)
next
  case False
  from assms False have cid: "countdownIntervalId (game s) = None"
    by (simp add: wellFormed_def countdownOk_def)
  from assms obtain r where r: "currentRound (service s) = Some r"
    by (auto simp: wellFormed_def schedulerOk_def)
  let ?s' = "s\<lparr>timers := timers s @ [\<lparr>tid = nextId s, seq = nextId s, due = clock s + 1000,
                               period = Some 1000, callback = CountdownTick\<rparr>],
       nextId := nextId s + 1,
       game := (game s)\<lparr>gstate := Running,
                        events := events (game s) @ [RoundStart (startTime r) (roundStartPrice r)],
                        countdownIntervalId := Some (nextId s)\<rparr>\<rparr>"
  have eq: "start s = ?s'" by (rule start_eq [OF False cid r])
  have notick: "\<forall>t\<in>set (timers s). callback t \<noteq> CountdownTick"
    using assms cid by (simp add: wellFormed_def countdownOk_def)
  have fresh: "\<forall>t\<in>set (timers s). seq t < nextId s \<and> tid t < nextId s"
    using assms by (simp add: wellFormed_def timersOk_def)
  have 1: "timersOk ?s'"
    using assms by (auto simp: wellFormed_def timersOk_def less_Suc_eq)
  have 2: "countdownOk ?s'"
    using notick fresh by (auto simp: countdownOk_def)
  have "schedulerOk ?s' = schedulerOk s"
    by (rule schedulerOk_cong) (simp_all add: schedTimers_def roundOpen_def)
  with assms 1 2 show ?thesis by (simp add: eq wellFormed_def)
qed

lemma handleGameResult_frame [simp]:
  "gstate (handleGameResult r g) = gstate g"
  "countdownIntervalId (handleGameResult r g) = countdownIntervalId g"
  "gameUserId (handleGameResult r g) = gameUserId g"
  "config (handleGameResult r g) = config g"
  by (simp_all add: handleGameResult_def Let_def emitEvent_def updateBalance_def)

lemma funpow_handle_frame [simp]:
  "gstate ((handleGameResult r ^^ n) g) = gstate g"
  "countdownIntervalId ((handleGameResult r ^^ n) g) = countdownIntervalId g"
  "gameUserId ((handleGameResult r ^^ n) g) = gameUserId g"
  by (induction n; simp)+

lemma notify_frame [simp]:
  "clock (notifySubscribers r s) = clock s"
  "timers (notifySubscribers r s) = timers s"
  "nextId (notifySubscribers r s) = nextId s"
  "currentPrice (notifySubscribers r s) = currentPrice s"
  "service (notifySubscribers r s) = service s"
  "gstate (game (notifySubscribers r s)) = gstate (game s)"
  "countdownIntervalId (game (notifySubscribers r s)) = countdownIntervalId (game s)"
  "gameUserId (game (notifySubscribers r s)) = gameUserId (game s)"
  by (simp_all add: notifySubscribers_def)

lemma settleOne_frame [simp]:
  "clock (settleOne sp cp p s) = clock s"
  "timers (settleOne sp cp p s) = timers s"
  "nextId (settleOne sp cp p s) = nextId s"
  "currentPrice (settleOne sp cp p s) = currentPrice s"
  "service (settleOne sp cp p s) =
     (service s)\<lparr>results := results (service s) @
        [buildResult (clock s) (winMultiplier (service s)) sp cp p]\<rparr>"
  "gstate (game (settleOne sp cp p s)) = gstate (game s)"
  "countdownIntervalId (game (settleOne sp cp p s)) = countdownIntervalId (game s)"
  "gameUserId (game (settleOne sp cp p s)) = gameUserId (game s)"
  by (simp_all add: settleOne_def Let_def)

lemma fold_settleOne_frame [simp]:
  "clock (fold (settleOne sp cp) ps s) = clock s"
  "timers (fold (settleOne sp cp) ps s) = timers s"
  "nextId (fold (settleOne sp cp) ps s) = nextId s"
  "currentPrice (fold (settleOne sp cp) ps s) = currentPrice s"
  "gstate (game (fold (settleOne sp cp) ps s)) = gstate (game s)"
  "countdownIntervalId (game (fold (settleOne sp cp) ps s)) = countdownIntervalId (game s)"
  "gameUserId (game (fold (settleOne sp cp) ps s)) = gameUserId (game s)"
  by (induction ps arbitrary: s; simp)+

lemma fold_settleOne_service:
  "service (fold (settleOne sp cp) ps s) =
     (service s)\<lparr>results := results (service s) @
        map (buildResult (clock s) (winMultiplier (service s)) sp cp) ps\<rparr>"
  by (induction ps arbitrary: s) simp_all

lemma endCurrentRound_frame [simp]:
  "clock (endCurrentRound s) = clock s"
  "timers (endCurrentRound s) = timers s"
  "nextId (endCurrentRound s) = nextId s"
  "currentPrice (endCurrentRound s) = currentPrice s"
  "gstate (game (endCurrentRound s)) = gstate (game s)"
  "countdownIntervalId (game (endCurrentRound s)) = countdownIntervalId (game s)"
  "gameUserId (game (endCurrentRound s)) = gameUserId (game s)"
  by (simp_all add: endCurrentRound_def Let_def split: option.splits)

lemma endCurrentRound_service:
  "service (endCurrentRound s) =
     (case currentRound (service s) of
        None \<Rightarrow> service s
      | Some r \<Rightarrow> (service s)\<lparr>currentRound := Some (close r),
            results := results (service s) @
              map (buildResult (clock s) (winMultiplier (service s)) (roundStartPrice r)
                     (currentPrice s)) (predictions r)\<rparr>)"
  by (simp add: endCurrentRound_def Let_def fold_settleOne_service split: option.splits)

lemma tid_inj:
  "timersOk s \<Longrightarrow> a \<in> set (timers s) \<Longrightarrow> b \<in> set (timers s) \<Longrightarrow> tid a = tid b \<Longrightarrow> a = b"
  unfolding timersOk_def by (meson distinct_map inj_onD)

lemma wellFormed_clock: "wellFormed s \<Longrightarrow> wellFormed (s\<lparr>clock := c\<rparr>)"
proof -
  have "wellFormed (s\<lparr>clock := c\<rparr>) = wellFormed s"
    by (rule wellFormed_cong) (simp_all add: roundOpen_def)
  then show "wellFormed s \<Longrightarrow> wellFormed (s\<lparr>clock := c\<rparr>)" by simp
qed

lemma countdownTick_eq:
  "currentRound (service s) = Some r \<Longrightarrow>
   countdownTick s =
     s\<lparr>game := emitEvent (Countdown ((getRemainingTimeMs (clock s) r + 999) div 1000)) (game s)\<rparr>"
  by (simp add: countdownTick_def getCurrentRound_def)

lemma wellFormed_countdownTick:
  assumes "wellFormed s"
  shows "wellFormed (countdownTick s)"
proof -
  from assms obtain r where r: "currentRound (service s) = Some r"
    by (auto simp: wellFormed_def schedulerOk_def)
  show ?thesis unfolding countdownTick_eq [OF r] using assms by (rule wellFormed_emit)
qed

lemma rearm_frame [simp]:
  "nextId (rearm t ms s) = nextId s + 1"
  "service (rearm t ms s) = service s"
  "clock (rearm t ms s) = clock s"
  "map tid (timers (rearm t ms s)) = map tid (timers s)"
  by (simp_all add: rearm_def comp_def cong: map_cong)

lemma rearm_set:
  assumes "timersOk s" "t \<in> set (timers s)"
  shows "set (timers (rearm t ms s)) =
           insert (t\<lparr>due := due t + ms, seq := nextId s\<rparr>) (set (timers s) - {t})"
proof -
  have inj: "\<And>x. x \<in> set (timers s) \<Longrightarrow> tid x = tid t \<Longrightarrow> x = t"
    using assms by (blast intro: tid_inj)
  show ?thesis
    using assms(2) inj unfolding rearm_def by (auto simp: image_iff)
qed

lemma remove_set:
  assumes "timersOk s" "t \<in> set (timers s)"
  shows "set (filter (\<lambda>x. tid x \<noteq> tid t) (timers s)) = set (timers s) - {t}"
  using assms by (auto intro: tid_inj)

lemma timersOk_rearm:
  assumes "timersOk s" "t \<in> set (timers s)"
  shows "timersOk (rearm t ms s)"
  unfolding timersOk_def rearm_set [OF assms] rearm_frame
  using assms by (auto simp: timersOk_def less_Suc_eq)

lemma countdownOk_rearm:
  assumes "timersOk s" "t \<in> set (timers s)" "countdownOk s"
  shows "countdownOk (rearm t ms s)"
  unfolding countdownOk_def rearm_set [OF assms(1,2)] rearm_frame game_rearm
  using assms(2,3) by (auto simp: countdownOk_def less_Suc_eq)

lemma schedTimers_rearm_tick:
  assumes "timersOk s" "t \<in> set (timers s)" "callback t = CountdownTick"
  shows "set (schedTimers (rearm t ms s)) = set (schedTimers s)"
  unfolding schedTimers_def set_filter rearm_set [OF assms(1,2)]
  using assms(2,3) by auto

lemma schedulerOk_rearm_tick:
  assumes "timersOk s" "t \<in> set (timers s)" "schedulerOk s" "callback t = CountdownTick"
  shows "schedulerOk (rearm t ms s)"
proof -
  have "schedulerOk (rearm t ms s) = schedulerOk s"
    by (rule schedulerOk_cong)
       (simp_all add: schedTimers_rearm_tick [OF assms(1,2,4)] roundOpen_def)
  with assms(3) show ?thesis by simp
qed

lemma wellFormed_rearm_tick:
  assumes "wellFormed s" "t \<in> set (timers s)" "callback t = CountdownTick"
  shows "wellFormed (rearm t ms s)"
  using assms unfolding wellFormed_def
  by (simp add: timersOk_rearm countdownOk_rearm schedulerOk_rearm_tick)

lemma schedTimers_remove_tick:
  assumes "timersOk s" "t \<in> set (timers s)" "callback t = CountdownTick"
  shows "set (schedTimers (s\<lparr>clock := c, timers := filter (\<lambda>x. tid x \<noteq> tid t) (timers s)\<rparr>)) =
         set (schedTimers s)"
  unfolding schedTimers_def using assms tid_inj [OF assms(1) _ assms(2)] by auto

lemma wellFormed_remove_tick:
  assumes "wellFormed s" "t \<in> set (timers s)" "callback t = CountdownTick"
  shows "wellFormed (s\<lparr>clock := c, timers := filter (\<lambda>x. tid x \<noteq> tid t) (timers s)\<rparr>)"
    (is "wellFormed ?s'")
proof -
  have ok: "timersOk s" using assms(1) by (simp add: wellFormed_def)
  have 1: "timersOk ?s'"
    using ok by (auto simp: timersOk_def distinct_map_filter)
  have 2: "countdownOk ?s'"
    using assms(1) by (auto simp: wellFormed_def countdownOk_def)
  have "schedulerOk ?s' = schedulerOk s"
    by (rule schedulerOk_cong)
       (simp_all add: schedTimers_remove_tick [OF ok assms(2,3)] roundOpen_def)
  then have 3: "schedulerOk ?s'" using assms(1) by (simp add: wellFormed_def)
  show ?thesis using 1 2 3 by (simp add: wellFormed_def)
qed

lemma countdownTick_frame [simp]:
  "timers (countdownTick s) = timers s"
  "nextId (countdownTick s) = nextId s"
  by (simp_all add: countdownTick_def getCurrentRound_def startNewRound_def split: option.splits)

lemma wellFormed_fire_tick:
  assumes wf: "wellFormed s" and t: "t \<in> set (timers s)" "callback t = CountdownTick"
  shows "wellFormed (case period t of
             None \<Rightarrow>
               runCallback (callback t)
                 (s\<lparr>clock := due t, timers := filter (\<lambda>x. tid x \<noteq> tid t) (timers s)\<rparr>)
           | Some ms \<Rightarrow>
               rearm t ms (runCallback (callback t) (s\<lparr>clock := due t\<rparr>)))"
proof (cases "period t")
  case None
  have "wellFormed (s\<lparr>clock := due t, timers := filter (\<lambda>x. tid x \<noteq> tid t) (timers s)\<rparr>)"
    using wf t by (rule wellFormed_remove_tick)
  then show ?thesis using t None by (simp add: runCallback_def wellFormed_countdownTick)
next
  case (Some ms)
  let ?s1 = "countdownTick (s\<lparr>clock := due t\<rparr>)"
  have wf1: "wellFormed ?s1"
    using wf by (simp add: wellFormed_clock wellFormed_countdownTick)
  have "wellFormed (rearm t ms ?s1)"
    using wf1 t by (intro wellFormed_rearm_tick) simp_all
  then show ?thesis using t Some by (simp add: runCallback_def)
qed

lemma schedulerOkI:
  assumes "\<And>t. t \<in> set (schedTimers s) \<Longrightarrow> callback t = StartNewRound \<Longrightarrow> period t = None"
    and "\<And>t. t \<in> set (schedTimers s) \<Longrightarrow> callback t = RoundCycle \<Longrightarrow>
          period t = Some (roundDurationMs (service s) + roundIntervalMs (service s))"
    and "\<And>a c. a \<in> set (schedTimers s) \<Longrightarrow> c \<in> set (schedTimers s) \<Longrightarrow>
          callback a = StartNewRound \<Longrightarrow> callback c = RoundCycle \<Longrightarrow> earlier a c"
    and "\<And>c c'. c \<in> set (schedTimers s) \<Longrightarrow> c' \<in> set (schedTimers s) \<Longrightarrow>
          callback c = RoundCycle \<Longrightarrow> callback c' = RoundCycle \<Longrightarrow> c = c'"
    and "\<And>a a'. a \<in> set (schedTimers s) \<Longrightarrow> a' \<in> set (schedTimers s) \<Longrightarrow>
          callback a = StartNewRound \<Longrightarrow> callback a' = StartNewRound \<Longrightarrow> a = a'"
    and "currentRound (service s) \<noteq> None"
    and "roundOpen s = (\<forall>t\<in>set (schedTimers s). callback t \<noteq> StartNewRound)"
    and "subscribers (service s) = 1"
    and "\<exists>t\<in>set (schedTimers s). callback t = RoundCycle"
  shows "schedulerOk s"
  unfolding schedulerOk_def
proof (intro conjI)
  show "\<forall>t\<in>set (schedTimers s). callback t = StartNewRound \<longrightarrow> period t = None"
    using assms(1) by blast
  show "\<forall>t\<in>set (schedTimers s). callback t = RoundCycle \<longrightarrow>
          period t = Some (roundDurationMs (service s) + roundIntervalMs (service s))"
    using assms(2) by blast
  show "\<forall>a\<in>set (schedTimers s). \<forall>c\<in>set (schedTimers s).
          callback a = StartNewRound \<longrightarrow> callback c = RoundCycle \<longrightarrow> earlier a c"
    using assms(3) by blast
  show "\<forall>c\<in>set (schedTimers s). \<forall>c'\<in>set (schedTimers s).
          callback c = RoundCycle \<longrightarrow> callback c' = RoundCycle \<longrightarrow> c = c'"
    using assms(4) by blast
  show "\<forall>a\<in>set (schedTimers s). \<forall>a'\<in>set (schedTimers s).
          callback a = StartNewRound \<longrightarrow> callback a' = StartNewRound \<longrightarrow> a = a'"
    using assms(5) by blast
  show "currentRound (service s) \<noteq> None" by (rule assms(6))
  show "roundOpen s = (\<forall>t\<in>set (schedTimers s). callback t \<noteq> StartNewRound)"
    by (rule assms(7))
  show "subscribers (service s) = 1" by (rule assms(8))
  show "\<exists>t\<in>set (schedTimers s). callback t = RoundCycle" by (rule assms(9))
qed

lemma schedulerOkD:
  assumes "schedulerOk s"
  shows "\<And>t. t \<in> set (schedTimers s) \<Longrightarrow> callback t = StartNewRound \<Longrightarrow> period t = None"
    and "\<And>t. t \<in> set (schedTimers s) \<Longrightarrow> callback t = RoundCycle \<Longrightarrow>
          period t = Some (roundDurationMs (service s) + roundIntervalMs (service s))"
    and "\<And>a c. a \<in> set (schedTimers s) \<Longrightarrow> c \<in> set (schedTimers s) \<Longrightarrow>
          callback a = StartNewRound \<Longrightarrow> callback c = RoundCycle \<Longrightarrow> earlier a c"
    and "\<And>c c'. c \<in> set (schedTimers s) \<Longrightarrow> c' \<in> set (schedTimers s) \<Longrightarrow>
          callback c = RoundCycle \<Longrightarrow> callback c' = RoundCycle \<Longrightarrow> c = c'"
    and "\<And>a a'. a \<in> set (schedTimers s) \<Longrightarrow> a' \<in> set (schedTimers s) \<Longrightarrow>
          callback a = StartNewRound \<Longrightarrow> callback a' = StartNewRound \<Longrightarrow> a = a'"
    and "currentRound (service s) \<noteq> None"
    and "roundOpen s = (\<forall>t\<in>set (schedTimers s). callback t \<noteq> StartNewRound)"
    and "subscribers (service s) = 1"
    and "\<exists>t\<in>set (schedTimers s). callback t = RoundCycle"
proof -
  note c = assms [unfolded schedulerOk_def]
  note c1 = c [THEN conjunct1]
  note c2 = c [THEN conjunct2, THEN conjunct1]
  note c3 = c [THEN conjunct2, THEN conjunct2, THEN conjunct1]
  note c4 = c [THEN conjunct2, THEN conjunct2, THEN conjunct2, THEN conjunct1]
  note c5 = c [THEN conjunct2, THEN conjunct2, THEN conjunct2, THEN conjunct2, THEN conjunct1]
  note c6 = c [THEN conjunct2, THEN conjunct2, THEN conjunct2, THEN conjunct2, THEN conjunct2,
               THEN conjunct1]
  note c7 = c [THEN conjunct2, THEN conjunct2, THEN conjunct2, THEN conjunct2, THEN conjunct2,
               THEN conjunct2, THEN conjunct1]
  note c8 = c [THEN conjunct2, THEN conjunct2, THEN conjunct2, THEN conjunct2, THEN conjunct2,
               THEN conjunct2, THEN conjunct2, THEN conjunct1]
  note c9 = c [THEN conjunct2, THEN conjunct2, THEN conjunct2, THEN conjunct2, THEN conjunct2,
               THEN conjunct2, THEN conjunct2, THEN conjunct2]
  show "\<And>t. t \<in> set (schedTimers s) \<Longrightarrow> callback t = StartNewRound \<Longrightarrow> period t = None"
    using c1 by blast
  show "\<And>t. t \<in> set (schedTimers s) \<Longrightarrow> callback t = RoundCycle \<Longrightarrow>
          period t = Some (roundDurationMs (service s) + roundIntervalMs (service s))"
    using c2 by blast
  show "\<And>a c. a \<in> set (schedTimers s) \<Longrightarrow> c \<in> set (schedTimers s) \<Longrightarrow>
          callback a = StartNewRound \<Longrightarrow> callback c = RoundCycle \<Longrightarrow> earlier a c"
    using c3 by blast
  show "\<And>c c'. c \<in> set (schedTimers s) \<Longrightarrow> c' \<in> set (schedTimers s) \<Longrightarrow>
          callback c = RoundCycle \<Longrightarrow> callback c' = RoundCycle \<Longrightarrow> c = c'"
    using c4 by blast
  show "\<And>a a'. a \<in> set (schedTimers s) \<Longrightarrow> a' \<in> set (schedTimers s) \<Longrightarrow>
          callback a = StartNewRound \<Longrightarrow> callback a' = StartNewRound \<Longrightarrow> a = a'"
    using c5 by blast
  show "currentRound (service s) \<noteq> None" by (rule c6)
  show "roundOpen s = (\<forall>t\<in>set (schedTimers s). callback t \<noteq> StartNewRound)" by (rule c7)
  show "subscribers (service s) = 1" by (rule c8)
  show "\<exists>t\<in>set (schedTimers s). callback t = RoundCycle" by (rule c9)
qed

lemma wellFormed_fire_start:
  assumes wf: "wellFormed s" and t: "t \<in> set (timers s)" "callback t = StartNewRound"
  shows "wellFormed (startNewRound
           (s\<lparr>clock := due t, timers := filter (\<lambda>x. tid x \<noteq> tid t) (timers s)\<rparr>))"
    (is "wellFormed ?s'")
proof -
  have ok: "timersOk s" and cd: "countdownOk s" and sch: "schedulerOk s"
    using wf by (simp_all add: wellFormed_def)
  have tm: "timers ?s' = filter (\<lambda>x. tid x \<noteq> tid t) (timers s)"
    and nx: "nextId ?s' = nextId s" and gm: "game ?s' = game s"
    by (simp_all add: startNewRound_def)
  have st: "set (timers ?s') = set (timers s) - {t}"
    unfolding tm by (rule remove_set [OF ok t(1)])
  have 1: "timersOk ?s'"
    unfolding timersOk_def tm nx using ok by (auto simp: timersOk_def distinct_map_filter)
  have 2: "countdownOk ?s'"
    unfolding countdownOk_def st nx gm using cd by (auto simp: countdownOk_def)
  have ss: "set (schedTimers ?s') = set (schedTimers s) - {t}"
    unfolding schedTimers_def set_filter st by auto
  have tin: "t \<in> set (schedTimers s)"
    using t by (simp add: schedTimers_def)
  have only: "\<And>x. x \<in> set (schedTimers s) \<Longrightarrow> callback x = StartNewRound \<Longrightarrow> x = t"
    using schedulerOkD(5) [OF sch _ tin _ t(2)] by blast
  have op: "roundOpen ?s'"
    by (simp add: roundOpen_def startNewRound_def newGameRound_def)
  have sv: "roundDurationMs (service ?s') = roundDurationMs (service s)"
    "roundIntervalMs (service ?s') = roundIntervalMs (service s)"
    "subscribers (service ?s') = subscribers (service s)"
    by (simp_all add: startNewRound_def)
  have 3: "schedulerOk ?s'"
  proof (rule schedulerOkI)
    show "currentRound (service ?s') \<noteq> None" by (simp add: startNewRound_def)
    show "subscribers (service ?s') = 1" using schedulerOkD(8) [OF sch] by (simp add: sv)
    show "roundOpen ?s' = (\<forall>x\<in>set (schedTimers ?s'). callback x \<noteq> StartNewRound)"
      unfolding ss using op only by auto
    from schedulerOkD(9) [OF sch] obtain c where
      c: "c \<in> set (schedTimers s)" "callback c = RoundCycle" by blast
    from c(2) t(2) have "c \<noteq> t" by auto
    with c show "\<exists>x\<in>set (schedTimers ?s'). callback x = RoundCycle" unfolding ss by blast
  next
    fix x assume "x \<in> set (schedTimers ?s')" "callback x = StartNewRound"
    then show "period x = None" unfolding ss using schedulerOkD(1) [OF sch] by blast
  next
    fix x assume "x \<in> set (schedTimers ?s')" "callback x = RoundCycle"
    then show "period x = Some (roundDurationMs (service ?s') + roundIntervalMs (service ?s'))"
      unfolding ss sv using schedulerOkD(2) [OF sch] by blast
  next
    fix x c assume "x \<in> set (schedTimers ?s')" "c \<in> set (schedTimers ?s')"
      "callback x = StartNewRound" "callback c = RoundCycle"
    then show "earlier x c" unfolding ss using schedulerOkD(3) [OF sch] by blast
  next
    fix c c' assume "c \<in> set (schedTimers ?s')" "c' \<in> set (schedTimers ?s')"
      "callback c = RoundCycle" "callback c' = RoundCycle"
    then show "c = c'" unfolding ss using schedulerOkD(4) [OF sch] by blast
  next
    fix c c' assume "c \<in> set (schedTimers ?s')" "c' \<in> set (schedTimers ?s')"
      "callback c = StartNewRound" "callback c' = StartNewRound"
    then show "c = c'" unfolding ss using schedulerOkD(5) [OF sch] by blast
  qed
  show ?thesis using 1 2 3 by (simp add: wellFormed_def)
qed

lemma no_start_before_cycle:
  assumes "schedulerOk s" "nextTimer (timers s) = Some t" "callback t = RoundCycle"
  shows "set (schedTimers s) = {t}"
proof -
  from nextTimer_least [OF assms(2)]
  have t: "t \<in> set (timers s)" and least: "\<forall>a\<in>set (timers s). \<not> earlier a t" by auto
  have tin: "t \<in> set (schedTimers s)" using t assms(3) by (simp add: schedTimers_def)
  have "x = t" if x: "x \<in> set (schedTimers s)" for x
  proof (cases "callback x")
    case RoundCycle
    show ?thesis by (rule schedulerOkD(4) [OF assms(1) x tin RoundCycle assms(3)])
  next
    case StartNewRound
    have "earlier x t" by (rule schedulerOkD(3) [OF assms(1) x tin StartNewRound assms(3)])
    moreover have "\<not> earlier x t" using least x by (simp add: schedTimers_def)
    ultimately show ?thesis by simp
  next
    case CountdownTick
    with x show ?thesis by (simp add: schedTimers_def)
  qed
  with tin show ?thesis by blast
qed

lemma wellFormed_fire_cycle:
  assumes wf: "wellFormed s" and nt: "nextTimer (timers s) = Some t"
    and cb: "callback t = RoundCycle"
  shows "wellFormed (rearm t (roundDurationMs (service s) + roundIntervalMs (service s))
                       (roundCycle (s\<lparr>clock := due t\<rparr>)))"
    (is "wellFormed (rearm t ?ms ?s3)")
proof -
  have ok: "timersOk s" and cd: "countdownOk s" and sch: "schedulerOk s"
    using wf by (simp_all add: wellFormed_def)
  have t: "t \<in> set (timers s)" using nextTimer_least [OF nt] by simp
  have only: "set (schedTimers s) = {t}" by (rule no_start_before_cycle [OF sch nt cb])
  define a where "a = \<lparr>tid = nextId s, seq = nextId s, due = due t + roundIntervalMs (service s),
                        period = None, callback = StartNewRound\<rparr>"
  obtain r where r: "currentRound (service s) = Some r"
    using schedulerOkD(6) [OF sch] by auto
  have sv3: "service ?s3 = (service s)\<lparr>currentRound := Some (close r),
            results := results (service s) @
              map (buildResult (due t) (winMultiplier (service s)) (roundStartPrice r)
                     (currentPrice s)) (predictions r)\<rparr>"
    by (simp add: roundCycle_def Let_def setTimeout_def endCurrentRound_service r)
  have tm3: "timers ?s3 = timers s @ [a]" and nx3: "nextId ?s3 = nextId s + 1"
    and cid3: "countdownIntervalId (game ?s3) = countdownIntervalId (game s)"
    and gs3: "gstate (game ?s3) = gstate (game s)"
    by (simp_all add: roundCycle_def Let_def setTimeout_def a_def endCurrentRound_service r close_def)
  have ok3: "timersOk ?s3"
    unfolding timersOk_def tm3 nx3 using ok by (auto simp: timersOk_def a_def less_Suc_eq)
  have cd3: "countdownOk ?s3"
    unfolding countdownOk_def tm3 nx3 cid3 gs3 using cd by (auto simp: countdownOk_def a_def)
  have t3: "t \<in> set (timers ?s3)" using t by (simp add: tm3)
  have 1: "timersOk (rearm t ?ms ?s3)" by (rule timersOk_rearm [OF ok3 t3])
  have 2: "countdownOk (rearm t ?ms ?s3)" by (rule countdownOk_rearm [OF ok3 t3 cd3])
  define t' where "t' = t\<lparr>due := due t + ?ms, seq := nextId s + 1\<rparr>"
  have "tid t < nextId s" using ok t by (simp add: timersOk_def)
  moreover have "tid a = nextId s" by (simp add: a_def)
  ultimately have ne: "a \<noteq> t" by auto
  have st4: "set (timers (rearm t ?ms ?s3)) = insert t' (insert a (set (timers s) - {t}))"
    unfolding rearm_set [OF ok3 t3] nx3 tm3 t'_def using ne by auto
  have per: "period t = Some ?ms"
    using schedulerOkD(2) [OF sch _ cb] t cb by (simp add: schedTimers_def)
  have cbs: "callback a = StartNewRound" "callback t' = RoundCycle" "period a = None"
    "period t' = Some ?ms"
    using cb per by (simp_all add: a_def t'_def)
  have e1: "{x \<in> {t', a}. callback x \<noteq> CountdownTick} = {t', a}"
    using cbs(1,2) by auto
  have "set (schedTimers (rearm t ?ms ?s3)) =
          {x \<in> {t', a}. callback x \<noteq> CountdownTick} \<union> (set (schedTimers s) - {t})"
    unfolding schedTimers_def set_filter st4 by auto
  also have "\<dots> = {t', a}"
    unfolding only e1 by simp
  finally have ss4: "set (schedTimers (rearm t ?ms ?s3)) = {t', a}" .
  have ea: "earlier a t'"
    unfolding earlier_def by (simp add: a_def t'_def) linarith
  have cl: "\<not> roundOpen (rearm t ?ms ?s3)"
    by (simp add: roundOpen_def sv3 close_def)
  have sub: "subscribers (service s) = 1" by (rule schedulerOkD(8) [OF sch])
  have sv4: "service (rearm t ?ms ?s3) = service ?s3" by simp
  have 3: "schedulerOk (rearm t ?ms ?s3)"
  proof (rule schedulerOkI)
    show "currentRound (service (rearm t ?ms ?s3)) \<noteq> None" by (simp add: sv3)
    show "subscribers (service (rearm t ?ms ?s3)) = 1" using sub by (simp add: sv3)
    show "roundOpen (rearm t ?ms ?s3) =
            (\<forall>x\<in>set (schedTimers (rearm t ?ms ?s3)). callback x \<noteq> StartNewRound)"
      unfolding ss4 using cl cbs by simp
    show "\<exists>x\<in>set (schedTimers (rearm t ?ms ?s3)). callback x = RoundCycle"
      unfolding ss4 using cbs(2) by simp
  next
    fix x assume "x \<in> set (schedTimers (rearm t ?ms ?s3))" "callback x = StartNewRound"
    then show "period x = None" unfolding ss4 using cbs by auto
  next
    fix x assume "x \<in> set (schedTimers (rearm t ?ms ?s3))" "callback x = RoundCycle"
    then have "x = t'" unfolding ss4 using cbs by auto
    then show "period x = Some (roundDurationMs (service (rearm t ?ms ?s3)) +
                 roundIntervalMs (service (rearm t ?ms ?s3)))"
      using cbs(4) by (simp add: sv3)
  next
    fix x c assume "x \<in> set (schedTimers (rearm t ?ms ?s3))"
      "c \<in> set (schedTimers (rearm t ?ms ?s3))"
      "callback x = StartNewRound" "callback c = RoundCycle"
    then have "x = a \<and> c = t'" unfolding ss4 using cbs by auto
    then show "earlier x c" using ea by simp
  next
    fix c c' assume "c \<in> set (schedTimers (rearm t ?ms ?s3))"
      "c' \<in> set (schedTimers (rearm t ?ms ?s3))"
      "callback c = RoundCycle" "callback c' = RoundCycle"
    then show "c = c'" unfolding ss4 using cbs by auto
  next
    fix c c' assume "c \<in> set (schedTimers (rearm t ?ms ?s3))"
      "c' \<in> set (schedTimers (rearm t ?ms ?s3))"
      "callback c = StartNewRound" "callback c' = StartNewRound"
    then show "c = c'" unfolding ss4 using cbs by auto
  qed
  show ?thesis using 1 2 3 by (simp add: wellFormed_def)
qed

lemma fire_start_eq:
  assumes "nextTimer (timers s) = Some t" "period t = None" "callback t = StartNewRound"
  shows "fire s = startNewRound
           (s\<lparr>clock := due t, timers := filter (\<lambda>x. tid x \<noteq> tid t) (timers s)\<rparr>)"
  using assms by (simp add: fire_def runCallback_def)

lemma fire_cycle_eq:
  assumes "nextTimer (timers s) = Some t" "period t = Some ms" "callback t = RoundCycle"
  shows "fire s = rearm t ms (roundCycle (s\<lparr>clock := due t\<rparr>))"
  using assms by (simp add: fire_def runCallback_def)

lemma fire_tick_eq:
  assumes "nextTimer (timers s) = Some t" "callback t = CountdownTick"
  shows "fire s =
     (case period t of
        None \<Rightarrow> countdownTick
                 (s\<lparr>clock := due t, timers := filter (\<lambda>x. tid x \<noteq> tid t) (timers s)\<rparr>)
      | Some ms \<Rightarrow> rearm t ms (countdownTick (s\<lparr>clock := due t\<rparr>)))"
  using assms by (simp add: fire_def runCallback_def split: option.splits)

lemma sched_periods:
  assumes "schedulerOk s" "t \<in> set (timers s)"
  shows "callback t = StartNewRound \<Longrightarrow> period t = None"
    and "callback t = RoundCycle \<Longrightarrow>
           period t = Some (roundDurationMs (service s) + roundIntervalMs (service s))"
proof -
  assume cb: "callback t = StartNewRound"
  have "t \<in> set (schedTimers s)" using assms(2) cb by (simp add: schedTimers_def)
  then show "period t = None" using cb by (rule schedulerOkD(1) [OF assms(1)])
next
  assume cb: "callback t = RoundCycle"
  have "t \<in> set (schedTimers s)" using assms(2) cb by (simp add: schedTimers_def)
  then show "period t = Some (roundDurationMs (service s) + roundIntervalMs (service s))"
    using cb by (rule schedulerOkD(2) [OF assms(1)])
qed

lemma wellFormed_fire:
  assumes wf: "wellFormed s"
  shows "wellFormed (fire s)"
proof (cases "nextTimer (timers s)")
  case None
  with wf show ?thesis by (simp add: fire_def)
next
  case (Some t)
  have t: "t \<in> set (timers s)" using nextTimer_least [OF Some] by simp
  have sch: "schedulerOk s" using wf by (simp add: wellFormed_def)
  show ?thesis
  proof (cases "callback t")
    case RoundCycle
    show ?thesis
      unfolding fire_cycle_eq [OF Some sched_periods(2) [OF sch t RoundCycle] RoundCycle]
      by (rule wellFormed_fire_cycle [OF wf Some RoundCycle])
  next
    case StartNewRound
    show ?thesis
      unfolding fire_start_eq [OF Some sched_periods(1) [OF sch t StartNewRound] StartNewRound]
      by (rule wellFormed_fire_start [OF wf t StartNewRound])
  next
    case CountdownTick
    show ?thesis
      using wellFormed_fire_tick [OF wf t CountdownTick]
      by (simp add: fire_def Some)
  qed
qed

lemma wellFormed_step:
  assumes "wellFormed s"
  shows "wellFormed (step a s)"
proof (cases a)
  case Fire
  then show ?thesis using assms by (simp add: step_def wellFormed_fire)
next
  case (Advance dt)
  then show ?thesis using assms by (simp add: step_def wellFormed_advance)
next
  case (PriceFeed p)
  then show ?thesis using assms by (simp add: step_def wellFormed_priceFeed)
next
  case Start
  then show ?thesis using assms by (simp add: step_def wellFormed_start)
next
  case Stop
  then show ?thesis using assms by (simp add: step_def wellFormed_stop)
next
  case (Predict d x)
  show ?thesis
  proof (cases "makePrediction d x s")
    case (Inl e)
    then show ?thesis using assms Predict by (simp add: step_def)
  next
    case (Inr s2)
    then show ?thesis using wellFormed_predict [OF assms Inr] Predict by (simp add: step_def)
  qed
next
  case (ServicePredict d x u)
  show ?thesis
  proof (cases "serviceMakePrediction d x u s")
    case (Inl e)
    then show ?thesis using assms ServicePredict by (simp add: step_def)
  next
    case (Inr ps)
    obtain p s1 where ps: "ps = (p, s1)" by (cases ps)
    show ?thesis
      using wellFormed_servicePredict [OF assms Inr [unfolded ps]] ServicePredict Inr ps
      by (simp add: step_def)
  qed
qed

lemma wellFormed_run: "wellFormed s \<Longrightarrow> wellFormed (run as s)"
proof (induction as arbitrary: s)
  case Nil
  then show ?case by (simp add: run_def)
next
  case (Cons a as)
  have "run (a # as) s = run as (step a s)" by (simp add: run_def)
  then show ?case using Cons.IH [OF wellFormed_step [OF Cons.prems]] by simp
qed

lemma map_prediction_buildResult:
  "map prediction (map (buildResult now w sp cp) ps) = ps"
  by (induction ps) (simp_all add: buildResult_fields)

lemma map_prediction_buildResult_comp:
  "map (prediction \<circ> buildResult now w sp cp) ps = ps"
  using map_prediction_buildResult [of now w sp cp ps] by simp

lemma unsettled_eq:
  "currentRound (service s) = Some r \<Longrightarrow>
   unsettled s = (if isActive r then predictions r else [])"
  by (simp add: unsettled_def)

lemma ledger_cong:
  "service s' = service s \<Longrightarrow> ledger s' = ledger s"
  by (simp add: ledger_def unsettled_def)

lemma service_start:
  "currentRound (service s) \<noteq> None \<Longrightarrow> service (start s) = service s"
  by (auto simp: start_def getCurrentRound_def startCountdown_def stopCountdown_def
      clearInterval_def setInterval_def Let_def split: option.splits)

lemma service_stop: "service (stop s) = service s"
  by (simp add: stop_eq split: option.splits)

lemma service_countdownTick:
  "currentRound (service s) \<noteq> None \<Longrightarrow> service (countdownTick s) = service s"
  by (auto simp: countdownTick_def getCurrentRound_def split: option.splits)

lemma ledger_fire:
  assumes wf: "wellFormed s"
  shows "ledger (fire s) = ledger s"
proof (cases "nextTimer (timers s)")
  case None
  then show ?thesis by (simp add: fire_def)
next
  case (Some t)
  have t: "t \<in> set (timers s)" using nextTimer_least [OF Some] by simp
  have sch: "schedulerOk s" using wf by (simp add: wellFormed_def)
  obtain r where r: "currentRound (service s) = Some r"
    using schedulerOkD(6) [OF sch] by auto
  show ?thesis
  proof (cases "callback t")
    case RoundCycle
    have only: "set (schedTimers s) = {t}" by (rule no_start_before_cycle [OF sch Some RoundCycle])
    have "roundOpen s"
      unfolding schedulerOkD(7) [OF sch] only using RoundCycle by simp
    then have act: "isActive r" using r by (simp add: roundOpen_def)
    let ?ms = "roundDurationMs (service s) + roundIntervalMs (service s)"
    have sv: "service (roundCycle (s\<lparr>clock := due t\<rparr>)) =
            (service s)\<lparr>currentRound := Some (close r),
            results := results (service s) @
              map (buildResult (due t) (winMultiplier (service s)) (roundStartPrice r)
                     (currentPrice s)) (predictions r)\<rparr>"
      by (simp add: roundCycle_def Let_def setTimeout_def endCurrentRound_service r)
    show ?thesis
      unfolding fire_cycle_eq [OF Some sched_periods(2) [OF sch t RoundCycle] RoundCycle]
      by (simp add: ledger_def unsettled_def sv r act close_def map_prediction_buildResult_comp)
  next
    case StartNewRound
    have "t \<in> set (schedTimers s)" using t StartNewRound by (simp add: schedTimers_def)
    then have "\<not> roundOpen s"
      unfolding schedulerOkD(7) [OF sch] using StartNewRound by blast
    then have act: "\<not> isActive r" using r by (simp add: roundOpen_def)
    show ?thesis
      unfolding fire_start_eq [OF Some sched_periods(1) [OF sch t StartNewRound] StartNewRound]
      by (simp add: ledger_def unsettled_def r act startNewRound_def newGameRound_def)
  next
    case CountdownTick
    have "service (fire s) = service s"
      unfolding fire_tick_eq [OF Some CountdownTick]
      by (simp add: service_countdownTick r split: option.splits)
    then show ?thesis by (rule ledger_cong)
  qed
qed

lemma ledger_servicePredict:
  assumes "serviceMakePrediction d a u s = Inr (p, s1)"
  shows "ledger s1 = ledger s @ [p]"
proof -
  from serviceMakePrediction_Inr [OF assms] obtain r where
    r: "currentRound (service s) = Some r" "isActive r"
    and s1: "s1 = s\<lparr>service := (service s)\<lparr>currentRound := Some (r\<lparr>predictions := predictions r @ [p]\<rparr>)\<rparr>\<rparr>"
    by blast
  show ?thesis by (simp add: ledger_def unsettled_def s1 r)
qed

lemma ledger_step:
  assumes wf: "wellFormed s"
  shows "ledger (step a s) = ledger s @ accepted a s"
proof (cases a)
  case Fire
  then show ?thesis using ledger_fire [OF wf] by (simp add: step_def accepted_def)
next
  case (Advance dt)
  have "ledger (advance dt s) = ledger s"
    by (rule ledger_cong) (simp add: advance_def split: option.splits)
  then show ?thesis using Advance by (simp add: step_def accepted_def)
next
  case (PriceFeed p)
  have "ledger (s\<lparr>currentPrice := p\<rparr>) = ledger s"
    by (rule ledger_cong) simp
  then show ?thesis using PriceFeed by (simp add: step_def accepted_def)
next
  case Start
  have "currentRound (service s) \<noteq> None"
    using wf schedulerOkD(6) by (simp add: wellFormed_def)
  then have "ledger (start s) = ledger s"
    by (intro ledger_cong service_start)
  then show ?thesis using Start by (simp add: step_def accepted_def)
next
  case Stop
  have "ledger (stop s) = ledger s"
    by (rule ledger_cong) (rule service_stop)
  then show ?thesis using Stop by (simp add: step_def accepted_def)
next
  case (Predict d x)
  show ?thesis
  proof (cases "makePrediction d x s")
    case (Inl e)
    then show ?thesis using Predict by (simp add: step_def accepted_def)
  next
    case (Inr s2)
    from makePrediction_Inr [OF Inr] obtain p s1 where
      1: "serviceMakePrediction d x (gameUserId (game s)) s = Inr (p, s1)"
      and 2: "s2 = s1\<lparr>game := emitEvent (PredictionMade d x (currentPrice s1)) (game s1)\<rparr>"
      by blast
    have p: "p = newPrediction d x (gameUserId (game s)) (clock s)"
      using serviceMakePrediction_Inr [OF 1] by blast
    have "ledger s2 = ledger s1" unfolding 2 by (rule ledger_cong) simp
    then show ?thesis
      using ledger_servicePredict [OF 1] Predict Inr p by (simp add: step_def accepted_def)
  qed
next
  case (ServicePredict d x u)
  show ?thesis
  proof (cases "serviceMakePrediction d x u s")
    case (Inl e)
    then show ?thesis using ServicePredict by (simp add: step_def accepted_def)
  next
    case (Inr ps)
    obtain p s1 where ps: "ps = (p, s1)" by (cases ps)
    show ?thesis
      using ledger_servicePredict [OF Inr [unfolded ps]] ServicePredict Inr ps
      by (simp add: step_def accepted_def)
  qed
qed

lemma ledger_run:
  "wellFormed s \<Longrightarrow> ledger (run as s) = ledger s @ acceptedBy as s"
proof (induction as arbitrary: s)
  case Nil
  then show ?case by (simp add: run_def)
next
  case (Cons a as)
  have run: "run (a # as) s = run as (step a s)" by (simp add: run_def)
  show ?case
    unfolding run
    using Cons.IH [OF wellFormed_step [OF Cons.prems]] ledger_step [OF Cons.prems, of a]
    by simp
qed

lemma ledger_newSystem: "ledger (newSystem now p d i w c u) = []"
  by (simp add: ledger_def unsettled_def newSystem_def subscribeToResults_def startGameCycle_def
      newGameService_def startNewRound_def setInterval_def newGameRound_def)

lemma outcomeView_buildResult:
  "outcomeView (buildResult now w sp cp p) = outcomeView (buildResult now' w' sp cp p)"
  by (simp add: outcomeView_def buildResult_def Let_def setReward_def newGameResult_def
      amountChange_def getPriceChangePercentage_def calculateStatus_def isCorrect_def
      getActualDirection_def)

lemma newResults_endCurrentRound:
  "newResults s (endCurrentRound s) =
     (case currentRound (service s) of
        None \<Rightarrow> []
      | Some r \<Rightarrow> map (buildResult (clock s) (winMultiplier (service s)) (roundStartPrice r)
                       (currentPrice s)) (predictions r))"
  by (simp add: newResults_def endCurrentRound_service split: option.splits)

lemma reward_buildResult:
  "reward (buildResult now w sp cp p) = reward (buildResult now' w sp cp p)"
  by (simp add: buildResult_def Let_def setReward_def newGameResult_def calculateStatus_def
      isCorrect_def getActualDirection_def)

lemma stopped_eq:
  "stop (bettingSystem Up 500) =
     \<lparr>clock = 0,
      timers = [\<lparr>tid = 1, seq = 1, due = 65000, period = Some 65000, callback = RoundCycle\<rparr>],
      nextId = 3, currentPrice = 150,
      service = \<lparr>currentRound = Some \<lparr>startTime = 0, endTime = 60000, roundStartPrice = 150,
                                       predictions = [exampleBet Up], isActive = True\<rparr>,
                 results = [], subscribers = 1, roundDurationMs = 60000,
                 roundIntervalMs = 5000, intervalId = Some 1, winMultiplier = 1.8\<rparr>,
      game = \<lparr>config = exampleConfig, gstate = Finished, balance = 10000,
              gameUserId = ''player1'', countdownIntervalId = None, winStreak = 0,
              events = [RoundStart 0 150, PredictionMade Up 500 150]\<rparr>\<rparr>"
  by (simp add: stop_bettingSystem exampleBet_def)

lemma game_settleOne1:
  "subscribers (service s) = 1 \<Longrightarrow>
   game (settleOne sp cp p s) =
     handleGameResult (buildResult (clock s) (winMultiplier (service s)) sp cp p) (game s)"
  by (simp add: settleOne_def Let_def notifySubscribers_def)

text \<open>
  Claim C1. For every settled prediction of the session's user, with positive reference
  and settlement prices, the change applied to the balance is
  \<open>round (amount * changePct / 100)\<close> on a win and its negation on a loss, where
  \<open>changePct = |settlementPrice - referencePrice| / referencePrice * 100\<close>, every
  operation being the one of the program: the difference, the quotients and the
  products are rounded to the nearest double, and so is the sum that gives the new
  balance. The witness below is the scenario of the specification: start price 150,
  stake 500, direction up, settlement price 153 give a win, a change of 2 percent and a
  balance that grows by 10. Its second half is a round from 140 to 135 with a stake of
  70 on down: the payout is 2, as the program computes it, where the quotient of the
  exact numbers, 2.5, would be rounded to 3.
\<close>

theorem payout_proportional_to_price_move:
  assumes "0 < sp" "0 < cp" "subscribers (service s) = 1" "userId p = gameUserId (game s)"
  shows "let r = last (results (service (settleOne sp cp p s)));
             changePct = dmul (ddiv \<bar>dsub cp sp\<bar> sp) 100;
             payout = round (ddiv (dmul (amount p) changePct) 100)
         in prediction r = p \<and> startPrice r = sp \<and> endPrice r = cp \<and>
            (status r = Win \<or> status r = Lose) \<and>
            (status r = Win \<longrightarrow>
               balance (game (settleOne sp cp p s)) = dadd (balance (game s)) (of_int payout)) \<and>
            (status r = Lose \<longrightarrow>
               balance (game (settleOne sp cp p s)) = dadd (balance (game s)) (- of_int payout))"
proof -
  let ?r = "buildResult (clock s) (winMultiplier (service s)) sp cp p"
  have pr: "prediction ?r = p" "startPrice ?r = sp" "endPrice ?r = cp"
    using assms(2) by (simp_all add: buildResult_fields)
  have st: "status ?r = Win \<or> status ?r = Lose"
    using assms(2) by (simp add: buildResult_fields)
  have pct: "\<bar>getPriceChangePercentage ?r\<bar> = dmul (ddiv \<bar>dsub cp sp\<bar> sp) 100"
    unfolding getPriceChangePercentage_def pr by (rule abs_pct [OF assms(1)])
  have g: "game (settleOne sp cp p s) = handleGameResult ?r (game s)"
    using assms(3) by (rule game_settleOne1)
  show ?thesis
    using st assms(4) by (auto simp: Let_def g balance_handleGameResult pr amountChange_def pct)
qed

theorem payout_proportional_to_price_move_witness:
  "status (last (results (service (settleOne 150 153 (exampleBet Up) exampleSystem)))) = Win \<and>
   dmul (ddiv \<bar>dsub 153 150\<bar> 150) 100 = 2 \<and>
   round (ddiv (dmul (amount (exampleBet Up)) 2) 100) = 10 \<and>
   balance (game (settleOne 150 153 (exampleBet Up) exampleSystem)) = 10010 \<and>
   status (last (results (service
      (settleOne 140 135 (newPrediction Down 70 ''player1'' 0) exampleSystem)))) = Win \<and>
   round (ddiv (dmul 70 (dmul (ddiv \<bar>dsub 135 140\<bar> 140) 100)) 100) = 2 \<and>
   round (70 * (\<bar>135 - 140\<bar> / 140 * 100) / 100 :: real) = 3 \<and>
   balance (game (settleOne 140 135 (newPrediction Down 70 ''player1'' 0) exampleSystem)) = 10002"
proof -
  have h: "(0::real) < 150" "(0::real) < 153" "subscribers (service exampleSystem) = 1"
    "userId (exampleBet Up) = gameUserId (game exampleSystem)"
    by (simp_all add: exampleSystem_eq exampleBet_def newPrediction_def)
  have h': "(0::real) < 140" "(0::real) < 135" "subscribers (service exampleSystem) = 1"
    "userId (newPrediction Down 70 ''player1'' 0) = gameUserId (game exampleSystem)"
    by (simp_all add: exampleSystem_eq newPrediction_def)
  have w: "status (last (results (service (settleOne 150 153 (exampleBet Up) exampleSystem)))) = Win"
    by (simp add: buildResult_fields exampleBet_def newPrediction_def)
  have w': "status (last (results (service
      (settleOne 140 135 (newPrediction Down 70 ''player1'' 0) exampleSystem)))) = Win"
    by (simp add: buildResult_fields newPrediction_def)
  have a: "amount (exampleBet Up) = 500" "amount (newPrediction Down 70 ''player1'' 0) = 70"
    by (simp_all add: exampleBet_def newPrediction_def)
  have b: "balance (game exampleSystem) = 10000" by (simp add: exampleSystem_eq)
  have p: "dmul (ddiv \<bar>dsub 153 150\<bar> 150) 100 = 2"
    using abs_pct [of 150 153] by (simp add: pct_150_153)
  have e: "round (70 * (\<bar>135 - 140\<bar> / 140 * 100) / 100 :: real) = 3"
    by (simp add: round_def)
  from payout_proportional_to_price_move [OF h] w
  have 1: "balance (game (settleOne 150 153 (exampleBet Up) exampleSystem)) = 10010"
    by (simp add: Let_def a b p payout_500_2 balance_10000)
  from payout_proportional_to_price_move [OF h'] w'
  have 2: "balance (game (settleOne 140 135 (newPrediction Down 70 ''player1'' 0) exampleSystem)) =
             10002"
    by (simp add: Let_def a b payout_140_135 balance_10000)
  show ?thesis
    by (simp only: w w' p a payout_500_2 payout_140_135 1 2 e simp_thms)
qed


lemma settlesI: "events g' = events g @ es \<Longrightarrow> list_all settlementEvent es \<Longrightarrow> settles g g'"
  by (simp add: settles_def)

lemma settlesD: "settles g g' \<Longrightarrow> \<exists>es. events g' = events g @ es \<and> list_all settlementEvent es"
  unfolding settles_def by (metis append_take_drop_id)

lemma settles_refl: "settles g g"
  by (simp add: settles_def)

lemma settles_eq: "events g' = events g \<Longrightarrow> settles g g'"
  by (simp add: settles_def)

lemma settles_trans:
  assumes "settles g g'" "settles g' g''"
  shows "settles g g''"
proof -
  from settlesD [OF assms(1)] obtain es where 1: "events g' = events g @ es" "list_all settlementEvent es"
    by blast
  from settlesD [OF assms(2)] obtain fs where 2: "events g'' = events g' @ fs" "list_all settlementEvent fs"
    by blast
  show ?thesis by (rule settlesI [of _ _ "es @ fs"]) (simp_all add: 1 2)
qed

lemma events_handleGameResult:
  "events (handleGameResult r g) =
     events g @
       (if userId (prediction r) \<noteq> gameUserId g then []
        else [BalanceChanged (balance (handleGameResult r g))
                (if status r = Win then of_int (amountChange r) else - of_int (amountChange r)),
              Result r (winStreak (handleGameResult r g))])"
  by (simp add: handleGameResult_def Let_def emitEvent_def updateBalance_def)

lemma settles_handleGameResult: "settles g (handleGameResult r g)"
  by (rule settlesI [OF events_handleGameResult]) (simp add: settlementEvent_def)

lemma settles_funpow: "settles g ((handleGameResult r ^^ n) g)"
proof (induction n)
  case 0
  show ?case by (simp add: settles_refl)
next
  case (Suc n)
  show ?case
    using settles_trans [OF Suc settles_handleGameResult] by simp
qed

lemma settles_settleOne: "settles (game s) (game (settleOne sp cp p s))"
  by (simp add: settleOne_def Let_def notifySubscribers_def settles_funpow)

lemma settles_fold: "settles (game s) (game (fold (settleOne sp cp) ps s))"
proof (induction ps arbitrary: s)
  case Nil
  show ?case by (simp add: settles_refl)
next
  case (Cons p ps)
  show ?case
    using settles_trans [OF settles_settleOne Cons [of "settleOne sp cp p s"]] by simp
qed

lemma settles_endCurrentRound: "settles (game s) (game (endCurrentRound s))"
proof (cases "currentRound (service s)")
  case None
  then show ?thesis by (simp add: endCurrentRound_def settles_refl)
next
  case (Some r)
  have "game (endCurrentRound s) =
          game (fold (settleOne (roundStartPrice r) (currentPrice s)) (predictions r)
                 (s\<lparr>service := (service s)\<lparr>currentRound := Some (close r)\<rparr>\<rparr>))"
    by (simp add: endCurrentRound_def Some Let_def)
  then show ?thesis
    using settles_fold [of "s\<lparr>service := (service s)\<lparr>currentRound := Some (close r)\<rparr>\<rparr>"]
    by simp
qed

lemma game_roundCycle: "game (roundCycle s) = game (endCurrentRound s)"
  by (simp add: roundCycle_def Let_def setTimeout_def)

lemma gstate_stop: "gstate (game (stop s)) \<noteq> Running"
  by (simp add: stop_eq split: option.splits)

lemma stopped_fire:
  assumes wf: "wellFormed s" and ns: "gstate (game s) \<noteq> Running"
  shows "gstate (game (fire s)) \<noteq> Running \<and> settles (game s) (game (fire s))"
proof (cases "nextTimer (timers s)")
  case None
  with ns show ?thesis by (simp add: fire_def settles_refl)
next
  case (Some t)
  have t: "t \<in> set (timers s)" using nextTimer_least [OF Some] by simp
  have sch: "schedulerOk s" and cd: "countdownOk s" using wf by (simp_all add: wellFormed_def)
  show ?thesis
  proof (cases "callback t")
    case RoundCycle
    have g: "game (fire s) = game (endCurrentRound (s\<lparr>clock := due t\<rparr>))"
      unfolding fire_cycle_eq [OF Some sched_periods(2) [OF sch t RoundCycle] RoundCycle]
      by (simp add: game_roundCycle)
    show ?thesis
      unfolding g using ns settles_endCurrentRound [of "s\<lparr>clock := due t\<rparr>"] by simp
  next
    case StartNewRound
    have g: "game (fire s) = game s"
      unfolding fire_start_eq [OF Some sched_periods(1) [OF sch t StartNewRound] StartNewRound]
      by (simp add: startNewRound_def)
    show ?thesis unfolding g using ns by (simp add: settles_refl)
  next
    case CountdownTick
    have "countdownIntervalId (game s) = None" using cd ns by (simp add: countdownOk_def)
    moreover have "countdownIntervalId (game s) = Some (tid t)"
      using cd t CountdownTick by (simp add: countdownOk_def)
    ultimately show ?thesis by simp
  qed
qed

lemma stopped_step:
  assumes wf: "wellFormed s" and ns: "gstate (game s) \<noteq> Running" and a: "a \<noteq> Start"
  shows "gstate (game (step a s)) \<noteq> Running \<and> settles (game s) (game (step a s))"
proof (cases a)
  case Fire
  then show ?thesis using stopped_fire [OF wf ns] by (simp add: step_def)
next
  case (Advance dt)
  then show ?thesis using ns
    by (simp add: step_def advance_def settles_refl split: option.splits)
next
  case (PriceFeed p)
  then show ?thesis using ns by (simp add: step_def settles_refl)
next
  case Start
  with a show ?thesis by simp
next
  case Stop
  then show ?thesis using ns by (simp add: step_def stop_def settles_refl)
next
  case (Predict d x)
  then show ?thesis using ns by (simp add: step_def makePrediction_def settles_refl)
next
  case (ServicePredict d x u)
  show ?thesis
  proof (cases "serviceMakePrediction d x u s")
    case (Inl e)
    then show ?thesis using ns ServicePredict by (simp add: step_def settles_refl)
  next
    case (Inr ps)
    obtain p s1 where ps: "ps = (p, s1)" by (cases ps)
    from serviceMakePrediction_Inr [OF Inr [unfolded ps]] have "game s1 = game s" by auto
    then show ?thesis using ns ServicePredict Inr ps by (simp add: step_def settles_refl)
  qed
qed

lemma stopped_run:
  assumes "wellFormed s" "gstate (game s) \<noteq> Running" "Start \<notin> set bs"
  shows "gstate (game (run bs s)) \<noteq> Running \<and> settles (game s) (game (run bs s))"
  using assms
proof (induction bs arbitrary: s)
  case Nil
  then show ?case by (simp add: run_def settles_refl)
next
  case (Cons b bs)
  have run: "run (b # bs) s = run bs (step b s)" by (simp add: run_def)
  from Cons.prems have b: "b \<noteq> Start" and bs: "Start \<notin> set bs" by auto
  from stopped_step [OF Cons.prems(1,2) b]
  have 1: "gstate (game (step b s)) \<noteq> Running" "settles (game s) (game (step b s))" by simp_all
  from Cons.IH [OF wellFormed_step [OF Cons.prems(1)] 1(1) bs]
  have 2: "gstate (game (run bs (step b s))) \<noteq> Running"
    "settles (game (step b s)) (game (run bs (step b s)))" by simp_all
  show ?case unfolding run using 2(1) settles_trans [OF 1(2) 2(2)] by simp
qed

lemma run_to_stop:
  "run [Start, Predict d a, Stop] exampleSystem = stop (bettingSystem d a)"
  by (simp add: run_def step_def bettingSystem_def startedSystem_def)

lemma game_fire_stopped:
  assumes "0 < a" "a \<le> 10000"
  shows "game (run [PriceFeed cp, Fire] (stop (bettingSystem d a))) =
           handleGameResult (buildResult 65000 1.8 150 cp (newPrediction d a ''player1'' 0))
             (game (stop (bettingSystem d a)))"
    and "results (service (run [PriceFeed cp, Fire] (stop (bettingSystem d a)))) =
           [buildResult 65000 1.8 150 cp (newPrediction d a ''player1'' 0)]"
proof -
  let ?t = "\<lparr>tid = 1, seq = 1, due = 65000, period = Some 65000, callback = RoundCycle\<rparr>"
  let ?s = "step (PriceFeed cp) (stop (bettingSystem d a))"
  have tm: "nextTimer (timers ?s) = Some ?t"
    by (simp add: step_def stop_bettingSystem [OF assms])
  have f: "fire ?s = rearm ?t 65000 (roundCycle (?s\<lparr>clock := due ?t\<rparr>))"
    by (rule fire_cycle_eq [OF tm]) simp_all
  have r: "run [PriceFeed cp, Fire] (stop (bettingSystem d a)) = fire ?s"
    by (simp add: run_def step_def)
  show "game (run [PriceFeed cp, Fire] (stop (bettingSystem d a))) =
           handleGameResult (buildResult 65000 1.8 150 cp (newPrediction d a ''player1'' 0))
             (game (stop (bettingSystem d a)))"
    unfolding r f
    by (simp add: game_roundCycle step_def stop_bettingSystem [OF assms] endCurrentRound_def
        close_def game_settleOne1)
  show "results (service (run [PriceFeed cp, Fire] (stop (bettingSystem d a)))) =
           [buildResult 65000 1.8 150 cp (newPrediction d a ''player1'' 0)]"
    unfolding r f
    by (simp add: roundCycle_def Let_def setTimeout_def endCurrentRound_service step_def
        stop_bettingSystem [OF assms])
qed

lemma buildResult_example:
  "cp \<noteq> 0 \<Longrightarrow> amountChange (buildResult now w 150 cp p) =
     round (ddiv (dmul (amount p) \<bar>dmul (ddiv (dsub cp 150) 150) 100\<bar>) 100)"
  by (simp add: amountChange_def getPriceChangePercentage_def buildResult_fields)

text \<open>
  Against claim C4 as stated: a prediction is made, the session is stopped, and when the
  round timer fires the \<open>result\<close> event of that prediction is emitted all the same.
\<close>

theorem result_fires_after_stop:
  "gstate (game (run [Start, Predict Up 500, Stop] exampleSystem)) = Finished \<and>
   events (game (run [PriceFeed 153, Fire] (run [Start, Predict Up 500, Stop] exampleSystem))) =
     events (game (run [Start, Predict Up 500, Stop] exampleSystem)) @
       [BalanceChanged 10010 10,
        Result (buildResult 65000 1.8 150 153 (exampleBet Up)) 1]"
proof -
  have g: "game (stop (bettingSystem Up 500)) =
             \<lparr>config = exampleConfig, gstate = Finished, balance = 10000,
              gameUserId = ''player1'', countdownIntervalId = None, winStreak = 0,
              events = [RoundStart 0 150, PredictionMade Up 500 150]\<rparr>"
    by (simp add: stopped_eq)
  have st: "\<And>w. status (buildResult 65000 w 150 153 (newPrediction Up 500 ''player1'' 0)) = Win"
    "\<And>w. amountChange (buildResult 65000 w 150 153 (newPrediction Up 500 ''player1'' 0)) = 10"
    by (simp_all add: buildResult_fields buildResult_example newPrediction_def pct_150_153
        payout_500_2)
  show ?thesis
    unfolding run_to_stop
    by (simp add: game_fire_stopped(1) events_handleGameResult balance_handleGameResult
        winStreak_handleGameResult st g exampleBet_def buildResult_fields balance_10000)
       (simp add: newPrediction_def)
qed

text \<open>
  Claim C10. The amount deducted on a loss is not capped by the stake. A stake of 10000
  (the whole balance, accepted by \<open>makePrediction\<close>) on Down, with the price going from
  150 to 450 (a change of 200 percent), loses 20000 and leaves a balance of -10000.
\<close>

theorem loss_can_exceed_stake:
  "makePrediction Down 10000 startedSystem = Inr (bettingSystem Down 10000) \<and>
   balance (game startedSystem) = 10000 \<and>
   amountChange (last (results (service
       (run [PriceFeed 450, Fire] (run [Start, Predict Down 10000, Stop] exampleSystem))))) = 20000 \<and>
   status (last (results (service
       (run [PriceFeed 450, Fire] (run [Start, Predict Down 10000, Stop] exampleSystem))))) = Lose \<and>
   balance (game
       (run [PriceFeed 450, Fire] (run [Start, Predict Down 10000, Stop] exampleSystem))) = - 10000"
proof -
  have a: "(0::real) < 10000" "(10000::real) \<le> 10000" by simp_all
  have m: "makePrediction Down 10000 startedSystem = Inr (bettingSystem Down 10000)"
    unfolding bettingSystem_eq [OF a]
    by (simp add: startedSystem_eq makePrediction_def serviceMakePrediction_def addPrediction_def
        emitEvent_def Let_def)
  have st: "\<And>w. status (buildResult 65000 w 150 450 (newPrediction Down 10000 ''player1'' 0)) = Lose"
    "\<And>w. amountChange (buildResult 65000 w 150 450 (newPrediction Down 10000 ''player1'' 0)) = 20000"
    by (simp_all add: buildResult_fields buildResult_example newPrediction_def pct_150_450
        payout_10000_200)
  have b0: "balance (game startedSystem) = 10000" by (simp add: startedSystem_eq)
  have g: "balance (game (stop (bettingSystem Down 10000))) = 10000"
    "gameUserId (game (stop (bettingSystem Down 10000))) = ''player1''"
    by (simp_all add: stop_bettingSystem [OF a])
  show ?thesis
    unfolding run_to_stop
    by (simp add: m game_fire_stopped [OF a] balance_handleGameResult st g b0
        buildResult_fields balance_10000)
       (simp add: newPrediction_def)
qed

lemma fire_exampleSystem:
  "fire exampleSystem =
     \<lparr>clock = 65000,
      timers = [\<lparr>tid = 1, seq = 3, due = 130000, period = Some 65000, callback = RoundCycle\<rparr>,
                \<lparr>tid = 2, seq = 2, due = 70000, period = None, callback = StartNewRound\<rparr>],
      nextId = 4, currentPrice = 150,
      service = \<lparr>currentRound = Some \<lparr>startTime = 0, endTime = 60000, roundStartPrice = 150,
                                       predictions = [], isActive = False\<rparr>,
                 results = [], subscribers = 1, roundDurationMs = 60000,
                 roundIntervalMs = 5000, intervalId = Some 1, winMultiplier = 1.8\<rparr>,
      game = \<lparr>config = exampleConfig, gstate = Waiting, balance = 10000,
              gameUserId = ''player1'', countdownIntervalId = None, winStreak = 0,
              events = []\<rparr>\<rparr>"
proof -
  let ?t = "\<lparr>tid = 1, seq = 1, due = 65000, period = Some 65000, callback = RoundCycle\<rparr>"
  have tm: "nextTimer (timers exampleSystem) = Some ?t" by (simp add: exampleSystem_eq)
  have f: "fire exampleSystem = rearm ?t 65000 (roundCycle (exampleSystem\<lparr>clock := due ?t\<rparr>))"
    by (rule fire_cycle_eq [OF tm]) simp_all
  show ?thesis
    unfolding f
    by (simp add: exampleSystem_eq roundCycle_def endCurrentRound_def close_def setTimeout_def
        rearm_def Let_def)
qed

lemma fire_fire_exampleSystem:
  "fire (fire exampleSystem) =
     \<lparr>clock = 70000,
      timers = [\<lparr>tid = 1, seq = 3, due = 130000, period = Some 65000, callback = RoundCycle\<rparr>],
      nextId = 4, currentPrice = 150,
      service = \<lparr>currentRound = Some \<lparr>startTime = 70000, endTime = 130000, roundStartPrice = 150,
                                       predictions = [], isActive = True\<rparr>,
                 results = [], subscribers = 1, roundDurationMs = 60000,
                 roundIntervalMs = 5000, intervalId = Some 1, winMultiplier = 1.8\<rparr>,
      game = \<lparr>config = exampleConfig, gstate = Waiting, balance = 10000,
              gameUserId = ''player1'', countdownIntervalId = None, winStreak = 0,
              events = []\<rparr>\<rparr>"
proof -
  let ?t = "\<lparr>tid = 2, seq = 2, due = 70000, period = None, callback = StartNewRound\<rparr>"
  have tm: "nextTimer (timers (fire exampleSystem)) = Some ?t"
    by (simp add: fire_exampleSystem earlier_def)
  have f: "fire (fire exampleSystem) = startNewRound
           ((fire exampleSystem)\<lparr>clock := due ?t,
              timers := filter (\<lambda>x. tid x \<noteq> tid ?t) (timers (fire exampleSystem))\<rparr>)"
    by (rule fire_start_eq [OF tm]) simp_all
  show ?thesis
    unfolding f by (simp add: fire_exampleSystem startNewRound_def newGameRound_def)
qed

lemma advance_exampleSystem:
  "advance 61000 exampleSystem = exampleSystem\<lparr>clock := 61000\<rparr>"
  by (simp add: advance_def exampleSystem_eq)

text \<open>
  Claim C3. A prediction submitted after the close time of the current round must fail
  with an error. The first round of a game service violates this: built at time 0 with a
  duration of 60000 ms and an interval of 5000 ms, its end time is 60000, but the round
  cycle first fires at 65000, so a prediction made at 61000 is accepted and recorded.
  The rounds after the first are closed exactly at their end time: the second round
  ends at 130000, which is when the cycle fires next.
\<close>

theorem late_bet_recorded_in_first_round:
  "clock (run [Advance 61000] exampleSystem) = 61000 \<and>
   map_option endTime (currentRound (service (run [Advance 61000] exampleSystem))) = Some 60000 \<and>
   serviceMakePrediction Up 500 ''player1'' (run [Advance 61000] exampleSystem) =
     Inr (newPrediction Up 500 ''player1'' 61000,
          run [Advance 61000, ServicePredict Up 500 ''player1''] exampleSystem) \<and>
   unsettled (run [Advance 61000, ServicePredict Up 500 ''player1''] exampleSystem) =
     [newPrediction Up 500 ''player1'' 61000] \<and>
   map_option endTime (currentRound (service (run [Fire, Fire] exampleSystem))) = Some 130000 \<and>
   map_option due (nextTimer (timers (run [Fire, Fire] exampleSystem))) = Some 130000"
proof -
  have a: "run [Advance 61000] exampleSystem = exampleSystem\<lparr>clock := 61000\<rparr>"
    by (simp add: run_def step_def advance_exampleSystem)
  have p: "serviceMakePrediction Up 500 ''player1'' (exampleSystem\<lparr>clock := 61000\<rparr>) =
     Inr (newPrediction Up 500 ''player1'' 61000,
          exampleSystem\<lparr>clock := 61000,
            service := (service exampleSystem)\<lparr>currentRound :=
              Some \<lparr>startTime = 0, endTime = 60000, roundStartPrice = 150,
                    predictions = [newPrediction Up 500 ''player1'' 61000], isActive = True\<rparr>\<rparr>\<rparr>)"
    by (simp add: serviceMakePrediction_def exampleSystem_eq addPrediction_def Let_def)
  have b: "run [Advance 61000, ServicePredict Up 500 ''player1''] exampleSystem =
          exampleSystem\<lparr>clock := 61000,
            service := (service exampleSystem)\<lparr>currentRound :=
              Some \<lparr>startTime = 0, endTime = 60000, roundStartPrice = 150,
                    predictions = [newPrediction Up 500 ''player1'' 61000], isActive = True\<rparr>\<rparr>\<rparr>"
    by (simp add: run_def step_def advance_exampleSystem p)
  have c: "run [Fire, Fire] exampleSystem = fire (fire exampleSystem)"
    by (simp add: run_def step_def)
  show ?thesis
    unfolding a b c p
    by (simp add: unsettled_def fire_fire_exampleSystem) (simp add: exampleSystem_eq)
qed

text \<open>
  Against claim C9 as stated: before \<open>start\<close> the round of the service already
  accepts bets, yet a prediction with a valid amount fails and is not recorded, and the
  error for the amount 0 is the not-running error, not the invalid-amount error.
\<close>

theorem predict_before_start_not_invalid_amount:
  "gstate (game exampleSystem) = Waiting \<and> roundOpen exampleSystem \<and>
   balance (game exampleSystem) = 10000 \<and>
   makePrediction Up 0 exampleSystem = Inl GameNotRunning \<and>
   makePrediction Up 500 exampleSystem = Inl GameNotRunning \<and>
   unsettled (step (Predict Up 500) exampleSystem) = []"
  by (simp add: exampleSystem_eq roundOpen_def makePrediction_def step_def unsettled_def)

text \<open>
  Claim C9, as amended. While the session is running, \<open>makePrediction\<close> fails with the
  invalid-amount error whenever the amount is not positive or exceeds the balance; when
  the session is not running it fails with the not-running error whatever the amount.
  With a valid amount and no round accepting bets it fails with the round-not-active
  error. A failed call records nothing. Otherwise the prediction is appended to the
  current round and \<open>prediction_made\<close> is emitted; the created prediction is what
  \<open>GameService.makePrediction\<close> returns, the method of the session itself returns
  nothing.
\<close>

theorem predict_guards:
  "(gstate (game s) \<noteq> Running \<longrightarrow> makePrediction d a s = Inl GameNotRunning) \<and>
   (gstate (game s) = Running \<longrightarrow> (a \<le> 0 \<or> a > balance (game s)) \<longrightarrow>
      makePrediction d a s = Inl InvalidAmount) \<and>
   (gstate (game s) = Running \<longrightarrow> 0 < a \<longrightarrow> a \<le> balance (game s) \<longrightarrow> \<not> roundOpen s \<longrightarrow>
      makePrediction d a s = Inl RoundNotActive) \<and>
   (gstate (game s) = Running \<longrightarrow> 0 < a \<longrightarrow> a \<le> balance (game s) \<longrightarrow>
    currentRound (service s) = Some r \<longrightarrow> isActive r \<longrightarrow>
      serviceMakePrediction d a (gameUserId (game s)) s =
        Inr (newPrediction d a (gameUserId (game s)) (clock s),
             s\<lparr>service := (service s)\<lparr>currentRound :=
                  Some (r\<lparr>predictions := predictions r @
                            [newPrediction d a (gameUserId (game s)) (clock s)]\<rparr>)\<rparr>\<rparr>) \<and>
      makePrediction d a s =
        Inr (s\<lparr>service := (service s)\<lparr>currentRound :=
                  Some (r\<lparr>predictions := predictions r @
                            [newPrediction d a (gameUserId (game s)) (clock s)]\<rparr>)\<rparr>,
               game := emitEvent (PredictionMade d a (currentPrice s)) (game s)\<rparr>)) \<and>
   (makePrediction d a s = Inl e \<longrightarrow> step (Predict d a) s = s)"
  by (auto simp: makePrediction_def serviceMakePrediction_def roundOpen_def step_def Let_def
      addPrediction_def split: option.splits)

theorem predict_guards_witness:
  "makePrediction Up 500 exampleSystem = Inl GameNotRunning \<and>
   makePrediction Up 0 startedSystem = Inl InvalidAmount \<and>
   makePrediction Up 10001 startedSystem = Inl InvalidAmount \<and>
   makePrediction Up 500 (endCurrentRound startedSystem) = Inl RoundNotActive \<and>
   makePrediction Up 500 startedSystem = Inr (bettingSystem Up 500) \<and>
   unsettled (bettingSystem Up 500) = [newPrediction Up 500 ''player1'' 0] \<and>
   step (Predict Up 0) startedSystem = startedSystem"
proof -
  let ?r = "\<lparr>startTime = 0, endTime = 60000, roundStartPrice = 150,
             predictions = [], isActive = True\<rparr>"
  have w: "gstate (game exampleSystem) \<noteq> Running" by (simp add: exampleSystem_eq)
  have s: "gstate (game startedSystem) = Running" "balance (game startedSystem) = 10000"
    "currentRound (service startedSystem) = Some ?r" "isActive ?r"
    "gameUserId (game startedSystem) = ''player1''" "clock startedSystem = 0"
    by (simp_all add: startedSystem_eq)
  have c: "gstate (game (endCurrentRound startedSystem)) = Running"
    "balance (game (endCurrentRound startedSystem)) = 10000"
    "\<not> roundOpen (endCurrentRound startedSystem)"
    by (simp_all add: s roundOpen_def endCurrentRound_service close_def)
       (simp add: endCurrentRound_def startedSystem_eq)
  have 1: "makePrediction Up 500 exampleSystem = Inl GameNotRunning"
    using predict_guards [of exampleSystem Up 500] w by blast
  have 2: "makePrediction Up 0 startedSystem = Inl InvalidAmount"
    using predict_guards [of startedSystem Up 0] s by simp
  have 3: "makePrediction Up 10001 startedSystem = Inl InvalidAmount"
    using predict_guards [of startedSystem Up 10001] s by simp
  have 4: "makePrediction Up 500 (endCurrentRound startedSystem) = Inl RoundNotActive"
    using predict_guards [of "endCurrentRound startedSystem" Up 500] c by simp
  have 5: "makePrediction Up 500 startedSystem =
        Inr (startedSystem\<lparr>service := (service startedSystem)\<lparr>currentRound :=
                  Some (?r\<lparr>predictions := predictions ?r @
                            [newPrediction Up 500 (gameUserId (game startedSystem))
                               (clock startedSystem)]\<rparr>)\<rparr>,
               game := emitEvent (PredictionMade Up 500 (currentPrice startedSystem))
                         (game startedSystem)\<rparr>)"
    using predict_guards [of startedSystem Up 500 ?r] s by simp
  have 6: "step (Predict Up 0) startedSystem = startedSystem"
    using predict_guards [of startedSystem Up 0 _ GameError.InvalidAmount] 2 by blast
  have 7: "makePrediction Up 500 startedSystem = Inr (bettingSystem Up 500)"
    unfolding 5 by (simp add: bettingSystem_eq startedSystem_eq emitEvent_def)
  have 8: "unsettled (bettingSystem Up 500) = [newPrediction Up 500 ''player1'' 0]"
    by (simp add: bettingSystem_eq unsettled_def)
  from 1 2 3 4 6 7 8 show ?thesis by simp
qed

lemma resultsOf_append: "resultsOf (xs @ ys) = resultsOf xs @ resultsOf ys"
  by (induction xs rule: resultsOf.induct) simp_all

lemma delivered_handleGameResult:
  "resultsOf (events (handleGameResult r g)) =
     resultsOf (events g) @ (if userId (prediction r) = gameUserId g then [r] else [])"
  by (simp add: events_handleGameResult resultsOf_append)

lemma delivered_fold:
  "subscribers (service s) = 1 \<Longrightarrow>
   resultsOf (events (game (fold (settleOne sp cp) ps s))) =
     resultsOf (events (game s)) @
       filter (\<lambda>r. userId (prediction r) = gameUserId (game s))
         (map (buildResult (clock s) (winMultiplier (service s)) sp cp) ps)"
proof (induction ps arbitrary: s)
  case Nil
  show ?case by simp
next
  case (Cons p ps)
  have sub: "subscribers (service (settleOne sp cp p s)) = 1" using Cons.prems by simp
  show ?case
    using Cons.IH [OF sub] Cons.prems
    by (simp add: game_settleOne1 delivered_handleGameResult)
qed

lemma delivered_emit:
  "\<not> (\<exists>r k. e = Result r k) \<Longrightarrow> resultsOf (events (emitEvent e g)) = resultsOf (events g)"
  by (cases e) (simp_all add: emitEvent_def resultsOf_append)

lemma gameUserId_emitEvent [simp]: "gameUserId (emitEvent e g) = gameUserId g"
  by (simp add: emitEvent_def)

lemma tally_cong:
  assumes "resultsOf (events (game s')) = resultsOf (events (game s))"
    and "gameUserId (game s') = gameUserId (game s)"
    and "results (service s') = results (service s)"
  shows "(delivered s' = ownResults s') = (delivered s = ownResults s)"
  using assms by (simp add: delivered_def ownResults_def)

lemma tally_fire:
  assumes wf: "wellFormed s" and ok: "delivered s = ownResults s"
  shows "delivered (fire s) = ownResults (fire s)"
proof (cases "nextTimer (timers s)")
  case None
  with ok show ?thesis by (simp add: fire_def)
next
  case (Some t)
  have t: "t \<in> set (timers s)" using nextTimer_least [OF Some] by simp
  have sch: "schedulerOk s" using wf by (simp add: wellFormed_def)
  obtain r where r: "currentRound (service s) = Some r"
    using schedulerOkD(6) [OF sch] by auto
  have sub: "subscribers (service s) = 1" by (rule schedulerOkD(8) [OF sch])
  show ?thesis
  proof (cases "callback t")
    case RoundCycle
    let ?s1 = "s\<lparr>clock := due t, service := (service s)\<lparr>currentRound := Some (close r)\<rparr>\<rparr>"
    have e: "endCurrentRound (s\<lparr>clock := due t\<rparr>) =
               fold (settleOne (roundStartPrice r) (currentPrice s)) (predictions r) ?s1"
      by (simp add: endCurrentRound_def r Let_def)
    have g: "game (fire s) = game (endCurrentRound (s\<lparr>clock := due t\<rparr>))"
      and sv: "service (fire s) = service (endCurrentRound (s\<lparr>clock := due t\<rparr>))"
      unfolding fire_cycle_eq [OF Some sched_periods(2) [OF sch t RoundCycle] RoundCycle]
      by (simp_all add: game_roundCycle roundCycle_def Let_def setTimeout_def)
    have d: "delivered (fire s) = delivered s @
               filter (\<lambda>x. userId (prediction x) = gameUserId (game s))
                 (map (buildResult (due t) (winMultiplier (service s)) (roundStartPrice r)
                        (currentPrice s)) (predictions r))"
      unfolding delivered_def g e using delivered_fold [of ?s1] sub by simp
    have o: "ownResults (fire s) = ownResults s @
               filter (\<lambda>x. userId (prediction x) = gameUserId (game s))
                 (map (buildResult (due t) (winMultiplier (service s)) (roundStartPrice r)
                        (currentPrice s)) (predictions r))"
      unfolding ownResults_def g sv by (simp add: endCurrentRound_service r)
    show ?thesis unfolding d o using ok by simp
  next
    case StartNewRound
    have "(delivered (fire s) = ownResults (fire s)) = (delivered s = ownResults s)"
      unfolding fire_start_eq [OF Some sched_periods(1) [OF sch t StartNewRound] StartNewRound]
      by (rule tally_cong) (simp_all add: startNewRound_def)
    with ok show ?thesis by simp
  next
    case CountdownTick
    have "(delivered (fire s) = ownResults (fire s)) = (delivered s = ownResults s)"
      unfolding fire_tick_eq [OF Some CountdownTick]
      by (rule tally_cong)
         (simp_all add: countdownTick_eq [of _ r] r delivered_emit split: option.splits)
    with ok show ?thesis by simp
  qed
qed

lemma tally_step:
  assumes wf: "wellFormed s" and ok: "delivered s = ownResults s"
  shows "delivered (step a s) = ownResults (step a s)"
proof (cases a)
  case Fire
  then show ?thesis using tally_fire [OF wf ok] by (simp add: step_def)
next
  case (Advance dt)
  have "(delivered (advance dt s) = ownResults (advance dt s)) = (delivered s = ownResults s)"
    by (rule tally_cong) (simp_all add: advance_def split: option.splits)
  then show ?thesis using ok Advance by (simp add: step_def)
next
  case (PriceFeed p)
  have "(delivered (s\<lparr>currentPrice := p\<rparr>) = ownResults (s\<lparr>currentPrice := p\<rparr>)) =
          (delivered s = ownResults s)"
    by (rule tally_cong) simp_all
  then show ?thesis using ok PriceFeed by (simp add: step_def)
next
  case Start
  show ?thesis
  proof (cases "gstate (game s) = Running")
    case True
    then show ?thesis using ok Start by (simp add: step_def start_def)
  next
    case False
    from wf False have cid: "countdownIntervalId (game s) = None"
      by (simp add: wellFormed_def countdownOk_def)
    from wf obtain r where r: "currentRound (service s) = Some r"
      using schedulerOkD(6) by (auto simp: wellFormed_def)
    have "(delivered (start s) = ownResults (start s)) = (delivered s = ownResults s)"
      unfolding start_eq [OF False cid r]
      by (rule tally_cong) (simp_all add: resultsOf_append)
    then show ?thesis using ok Start by (simp add: step_def)
  qed
next
  case Stop
  have "(delivered (stop s) = ownResults (stop s)) = (delivered s = ownResults s)"
    by (rule tally_cong) (simp_all add: stop_eq split: option.splits)
  then show ?thesis using ok Stop by (simp add: step_def)
next
  case (Predict d x)
  show ?thesis
  proof (cases "makePrediction d x s")
    case (Inl e)
    then show ?thesis using ok Predict by (simp add: step_def)
  next
    case (Inr s2)
    from makePrediction_Inr [OF Inr] obtain p s1 where
      1: "serviceMakePrediction d x (gameUserId (game s)) s = Inr (p, s1)"
      and 2: "s2 = s1\<lparr>game := emitEvent (PredictionMade d x (currentPrice s1)) (game s1)\<rparr>"
      by blast
    from serviceMakePrediction_Inr [OF 1] have 3: "game s1 = game s"
      "results (service s1) = results (service s)" by auto
    have "(delivered s2 = ownResults s2) = (delivered s = ownResults s)"
      unfolding 2 by (rule tally_cong) (simp_all add: 3 delivered_emit)
    then show ?thesis using ok Predict Inr by (simp add: step_def)
  qed
next
  case (ServicePredict d x u)
  show ?thesis
  proof (cases "serviceMakePrediction d x u s")
    case (Inl e)
    then show ?thesis using ok ServicePredict by (simp add: step_def)
  next
    case (Inr ps)
    obtain p s1 where ps: "ps = (p, s1)" by (cases ps)
    from serviceMakePrediction_Inr [OF Inr [unfolded ps]] have 3: "game s1 = game s"
      "results (service s1) = results (service s)" by auto
    have "(delivered s1 = ownResults s1) = (delivered s = ownResults s)"
      by (rule tally_cong) (simp_all add: 3)
    then show ?thesis using ok ServicePredict Inr ps by (simp add: step_def)
  qed
qed

lemma tally_run:
  "wellFormed s \<Longrightarrow> delivered s = ownResults s \<Longrightarrow> delivered (run as s) = ownResults (run as s)"
proof (induction as arbitrary: s)
  case Nil
  then show ?case by (simp add: run_def)
next
  case (Cons a as)
  have run: "run (a # as) s = run as (step a s)" by (simp add: run_def)
  show ?case
    unfolding run
    by (rule Cons.IH [OF wellFormed_step [OF Cons.prems(1)] tally_step [OF Cons.prems]])
qed

lemma tally_newSystem: "delivered (newSystem now p d i w c u) = ownResults (newSystem now p d i w c u)"
  by (simp add: delivered_def ownResults_def newSystem_def subscribeToResults_def
      startGameCycle_def newGameService_def newGame_def startNewRound_def setInterval_def)

subsection \<open>What a firing of the round timer does\<close>

lemma cycle_armed:
  assumes "wellFormed s"
  shows "\<exists>t\<in>set (timers s). callback t = RoundCycle"
proof -
  have "schedulerOk s" using assms by (simp add: wellFormed_def)
  from schedulerOkD(9) [OF this] show ?thesis by (auto simp: schedTimers_def)
qed

lemma changesOf_append: "changesOf (xs @ ys) = changesOf xs @ changesOf ys"
  by (induction xs rule: changesOf.induct) simp_all

lemma resultTimestamp_buildResult: "resultTimestamp (buildResult now w sp cp p) = now"
  by (simp add: buildResult_def Let_def setReward_def newGameResult_def)

lemma events_settleOne:
  assumes "subscribers (service s) = 1"
  shows "\<exists>es. events (game (settleOne sp cp p s)) = events (game s) @ es \<and>
     list_all settlementEvent es \<and>
     resultsOf es = filter (own s) [buildResult (clock s) (winMultiplier (service s)) sp cp p] \<and>
     changesOf es =
       map signedPayout (filter (own s) [buildResult (clock s) (winMultiplier (service s)) sp cp p])"
  unfolding game_settleOne1 [OF assms] events_handleGameResult
  by (simp add: own_def signedPayout_def settlementEvent_def)

lemma events_fold:
  "subscribers (service s) = 1 \<Longrightarrow>
   \<exists>es. events (game (fold (settleOne sp cp) ps s)) = events (game s) @ es \<and>
     list_all settlementEvent es \<and>
     resultsOf es =
       filter (own s) (map (buildResult (clock s) (winMultiplier (service s)) sp cp) ps) \<and>
     changesOf es =
       map signedPayout
         (filter (own s) (map (buildResult (clock s) (winMultiplier (service s)) sp cp) ps))"
proof (induction ps arbitrary: s)
  case Nil
  show ?case by simp
next
  case (Cons p ps)
  let ?s' = "settleOne sp cp p s"
  let ?r = "buildResult (clock s) (winMultiplier (service s)) sp cp p"
  let ?rs = "map (buildResult (clock s) (winMultiplier (service s)) sp cp) ps"
  have sub: "subscribers (service ?s') = 1" using Cons.prems by simp
  have fr: "clock ?s' = clock s" "winMultiplier (service ?s') = winMultiplier (service s)"
    by simp_all
  have ow: "own ?s' = own s"
    using Cons.prems by (simp add: own_def game_settleOne1 fun_eq_iff)
  from events_settleOne [OF Cons.prems, of sp cp p] obtain e1 where
    e1: "events (game ?s') = events (game s) @ e1" "list_all settlementEvent e1"
      "resultsOf e1 = filter (own s) [?r]" "changesOf e1 = map signedPayout (filter (own s) [?r])"
    by blast
  from Cons.IH [OF sub] obtain es where
    es: "events (game (fold (settleOne sp cp) ps ?s')) = events (game ?s') @ es"
      "list_all settlementEvent es"
      "resultsOf es = filter (own s) ?rs" "changesOf es = map signedPayout (filter (own s) ?rs)"
    unfolding fr ow by blast
  have "events (game (fold (settleOne sp cp) (p # ps) s)) = events (game s) @ (e1 @ es)"
    using e1(1) es(1) by simp
  moreover have "list_all settlementEvent (e1 @ es)" using e1(2) es(2) by simp
  moreover have "resultsOf (e1 @ es) = filter (own s) (?r # ?rs)"
    unfolding resultsOf_append e1(3) es(3) by simp
  moreover have "changesOf (e1 @ es) = map signedPayout (filter (own s) (?r # ?rs))"
    unfolding changesOf_append e1(4) es(4) by simp
  ultimately show ?case by (intro exI [of _ "e1 @ es"]) simp
qed

lemma endCurrentRound_effect:
  assumes r: "currentRound (service s) = Some r" and sub: "subscribers (service s) = 1"
  shows "\<exists>es. events (game (endCurrentRound s)) = events (game s) @ es \<and>
     list_all settlementEvent es \<and>
     resultsOf es = filter (own s) (outcomesAt (clock s) s) \<and>
     changesOf es = map signedPayout (filter (own s) (outcomesAt (clock s) s))"
proof -
  let ?s1 = "s\<lparr>service := (service s)\<lparr>currentRound := Some (close r)\<rparr>\<rparr>"
  have e: "endCurrentRound s =
             fold (settleOne (roundStartPrice r) (currentPrice s)) (predictions r) ?s1"
    by (simp add: endCurrentRound_def r Let_def)
  have oa: "outcomesAt (clock s) s =
              map (buildResult (clock ?s1) (winMultiplier (service ?s1)) (roundStartPrice r)
                     (currentPrice s)) (predictions r)"
    by (simp add: outcomesAt_def r)
  have o1: "own s = own ?s1" by (simp add: fun_eq_iff own_def)
  have g1: "events (game s) = events (game ?s1)" by simp
  have s1: "subscribers (service ?s1) = 1" using sub by simp
  show ?thesis
    unfolding e oa o1 g1 by (rule events_fold [OF s1])
qed

lemma fire_cycle_effect:
  assumes wf: "wellFormed s" and nt: "nextTimer (timers s) = Some t"
    and cb: "callback t = RoundCycle"
  shows "\<exists>r es. currentRound (service s) = Some r \<and> isActive r \<and>
      currentRound (service (fire s)) = Some (close r) \<and>
      results (service (fire s)) = results (service s) @ outcomesAt (due t) s \<and>
      events (game (fire s)) = events (game s) @ es \<and>
      list_all settlementEvent es \<and>
      resultsOf es = filter (own s) (outcomesAt (due t) s) \<and>
      changesOf es = map signedPayout (filter (own s) (outcomesAt (due t) s))"
proof -
  have sch: "schedulerOk s" using wf by (simp add: wellFormed_def)
  have t: "t \<in> set (timers s)" using nextTimer_least [OF nt] by simp
  obtain r where r: "currentRound (service s) = Some r"
    using schedulerOkD(6) [OF sch] by auto
  have sub: "subscribers (service s) = 1" by (rule schedulerOkD(8) [OF sch])
  have only: "set (schedTimers s) = {t}" by (rule no_start_before_cycle [OF sch nt cb])
  have "roundOpen s" unfolding schedulerOkD(7) [OF sch] only using cb by simp
  then have act: "isActive r" using r by (simp add: roundOpen_def)
  let ?s0 = "s\<lparr>clock := due t\<rparr>"
  have g: "game (fire s) = game (endCurrentRound ?s0)"
    and sv: "service (fire s) = service (endCurrentRound ?s0)"
    unfolding fire_cycle_eq [OF nt sched_periods(2) [OF sch t cb] cb]
    by (simp_all add: game_roundCycle roundCycle_def Let_def setTimeout_def)
  have r0: "currentRound (service ?s0) = Some r" "subscribers (service ?s0) = 1"
    using r sub by simp_all
  have oa: "outcomesAt (clock ?s0) ?s0 = outcomesAt (due t) s"
    by (simp add: outcomesAt_def r)
  have o0: "own ?s0 = own s" by (simp add: fun_eq_iff own_def)
  from endCurrentRound_effect [OF r0] obtain es where
    es: "events (game (fire s)) = events (game s) @ es" "list_all settlementEvent es"
      "resultsOf es = filter (own s) (outcomesAt (due t) s)"
      "changesOf es = map signedPayout (filter (own s) (outcomesAt (due t) s))"
    unfolding oa o0 g by auto
  have cr: "currentRound (service (fire s)) = Some (close r)"
    "results (service (fire s)) = results (service s) @ outcomesAt (due t) s"
    unfolding sv by (simp_all add: endCurrentRound_service r outcomesAt_def)
  show ?thesis using r act cr es by blast
qed

lemma fire_cycle_outcomes:
  assumes wf: "wellFormed s" and nt: "nextTimer (timers s) = Some t"
    and cb: "callback t = RoundCycle"
  shows "roundOpen s" and "\<not> roundOpen (fire s)" and "unsettled (fire s) = []"
    and "take (length (results (service s))) (results (service (fire s))) = results (service s)"
    and "newResults s (fire s) = outcomesAt (due t) s"
    and "map prediction (outcomesAt (due t) s) = unsettled s"
    and "take (length (events (game s))) (events (game (fire s))) = events (game s)"
    and "list_all settlementEvent (newEvents s (fire s))"
    and "resultsOf (newEvents s (fire s)) = filter (own s) (outcomesAt (due t) s)"
    and "changesOf (newEvents s (fire s)) =
           map signedPayout (filter (own s) (outcomesAt (due t) s))"
proof -
  from fire_cycle_effect [OF assms] obtain r es where
    r: "currentRound (service s) = Some r" "isActive r"
    and cr: "currentRound (service (fire s)) = Some (close r)"
      "results (service (fire s)) = results (service s) @ outcomesAt (due t) s"
    and es: "events (game (fire s)) = events (game s) @ es" "list_all settlementEvent es"
      "resultsOf es = filter (own s) (outcomesAt (due t) s)"
      "changesOf es = map signedPayout (filter (own s) (outcomesAt (due t) s))"
    by blast
  have ne: "newEvents s (fire s) = es" by (simp add: newEvents_def es(1))
  show "roundOpen s" using r by (simp add: roundOpen_def)
  show "\<not> roundOpen (fire s)" by (simp add: roundOpen_def cr(1) close_def)
  show "unsettled (fire s) = []" by (simp add: unsettled_def cr(1) close_def)
  show "take (length (results (service s))) (results (service (fire s))) = results (service s)"
    by (simp add: cr(2))
  show "newResults s (fire s) = outcomesAt (due t) s" by (simp add: newResults_def cr(2))
  show "map prediction (outcomesAt (due t) s) = unsettled s"
    using r by (simp add: outcomesAt_def unsettled_def map_prediction_buildResult_comp)
  show "take (length (events (game s))) (events (game (fire s))) = events (game s)"
    by (simp add: es(1))
  show "list_all settlementEvent (newEvents s (fire s))" unfolding ne by (rule es(2))
  show "resultsOf (newEvents s (fire s)) = filter (own s) (outcomesAt (due t) s)"
    unfolding ne by (rule es(3))
  show "changesOf (newEvents s (fire s)) =
          map signedPayout (filter (own s) (outcomesAt (due t) s))"
    unfolding ne by (rule es(4))
qed

lemma stopped_next_is_cycle:
  assumes wf: "wellFormed s" and ns: "gstate (game s) \<noteq> Running" and op: "roundOpen s"
  shows "\<exists>t. nextTimer (timers s) = Some t \<and> callback t = RoundCycle"
proof -
  have cd: "countdownOk s" and sch: "schedulerOk s" using wf by (simp_all add: wellFormed_def)
  from cd ns have none: "countdownIntervalId (game s) = None" by (simp add: countdownOk_def)
  have notick: "\<And>x. x \<in> set (timers s) \<Longrightarrow> callback x \<noteq> CountdownTick"
    using cd none by (simp add: countdownOk_def)
  from cycle_armed [OF wf] have "timers s \<noteq> []" by auto
  then obtain t where t: "nextTimer (timers s) = Some t"
    using nextTimer_None [of "timers s"] by (cases "nextTimer (timers s)") auto
  have tin: "t \<in> set (timers s)" using nextTimer_least [OF t] by simp
  then have ts: "t \<in> set (schedTimers s)" using notick by (simp add: schedTimers_def)
  have "callback t \<noteq> StartNewRound"
    using op ts unfolding schedulerOkD(7) [OF sch] by blast
  with notick [OF tin] have "callback t = RoundCycle" by (cases "callback t") simp_all
  with t show ?thesis by blast
qed

lemma results_fire_other:
  assumes wf: "wellFormed s" and nt: "nextTimer (timers s) = Some t"
    and cb: "callback t \<noteq> RoundCycle"
  shows "results (service (fire s)) = results (service s)"
proof -
  have sch: "schedulerOk s" using wf by (simp add: wellFormed_def)
  have t: "t \<in> set (timers s)" using nextTimer_least [OF nt] by simp
  obtain r where r: "currentRound (service s) = Some r"
    using schedulerOkD(6) [OF sch] by auto
  show ?thesis
  proof (cases "callback t")
    case RoundCycle
    with cb show ?thesis by simp
  next
    case StartNewRound
    show ?thesis
      unfolding fire_start_eq [OF nt sched_periods(1) [OF sch t StartNewRound] StartNewRound]
      by (simp add: startNewRound_def)
  next
    case CountdownTick
    show ?thesis
      unfolding fire_tick_eq [OF nt CountdownTick]
      by (simp add: countdownTick_eq [of _ r] r split: option.splits)
  qed
qed

lemma results_step_other:
  assumes wf: "wellFormed s" and a: "a \<noteq> Fire"
  shows "results (service (step a s)) = results (service s)"
proof (cases a)
  case Fire
  with a show ?thesis by simp
next
  case (Advance dt)
  then show ?thesis by (simp add: step_def advance_def split: option.splits)
next
  case (PriceFeed p)
  then show ?thesis by (simp add: step_def)
next
  case Start
  from wf have "currentRound (service s) \<noteq> None"
    using schedulerOkD(6) by (simp add: wellFormed_def)
  then show ?thesis using Start by (simp add: step_def service_start)
next
  case Stop
  then show ?thesis by (simp add: step_def service_stop)
next
  case (Predict d x)
  show ?thesis
  proof (cases "makePrediction d x s")
    case (Inl e)
    then show ?thesis using Predict by (simp add: step_def)
  next
    case (Inr s2)
    from makePrediction_Inr [OF Inr] obtain p s1 where
      1: "serviceMakePrediction d x (gameUserId (game s)) s = Inr (p, s1)"
      and 2: "s2 = s1\<lparr>game := emitEvent (PredictionMade d x (currentPrice s1)) (game s1)\<rparr>"
      by blast
    from serviceMakePrediction_Inr [OF 1] have "results (service s1) = results (service s)"
      by auto
    then show ?thesis using Predict Inr 2 by (simp add: step_def)
  qed
next
  case (ServicePredict d x u)
  show ?thesis
  proof (cases "serviceMakePrediction d x u s")
    case (Inl e)
    then show ?thesis using ServicePredict by (simp add: step_def)
  next
    case (Inr ps)
    obtain p s1 where ps: "ps = (p, s1)" by (cases ps)
    from serviceMakePrediction_Inr [OF Inr [unfolded ps]]
    have "results (service s1) = results (service s)" by auto
    then show ?thesis using ServicePredict Inr ps by (simp add: step_def)
  qed
qed

lemma run_Start: "run [Start] exampleSystem = startedSystem"
  by (simp add: run_def step_def startedSystem_def)

lemma run_bet: "run [Start, Predict d a] exampleSystem = bettingSystem d a"
  by (simp add: run_def step_def bettingSystem_def startedSystem_def)

lemma run_feed: "run [PriceFeed cp] s = s\<lparr>currentPrice := cp\<rparr>"
  by (simp add: run_def step_def)

lemma run_to_feed:
  "run [Start, Predict d a, Stop, PriceFeed cp] exampleSystem =
     (stop (bettingSystem d a))\<lparr>currentPrice := cp\<rparr>"
  by (simp add: run_def step_def bettingSystem_def startedSystem_def)

lemma example_outcome:
  "\<And>w. status (buildResult now w 150 153 (newPrediction Up 500 ''player1'' 0)) = Win"
  "\<And>w. amountChange (buildResult now w 150 153 (newPrediction Up 500 ''player1'' 0)) = 10"
  by (simp_all add: buildResult_fields buildResult_example newPrediction_def pct_150_153
      payout_500_2)

text \<open>
  Claim C2. Every round that reaches settlement yields exactly one outcome per
  prediction, and none of them ever again. In every state \<open>s\<close> that a run of the
  constructed system reaches:
  \<^item> the predictions of the stored outcomes, in order, followed by the predictions of the
    round that is still open, are exactly the accepted predictions in the order of their
    submission;
  \<^item> the \<open>result\<close> events of the session are, in order, exactly the stored outcomes of
    the session's user: none is emitted twice;
  \<^item> the round timer is armed;
  \<^item> whenever the round timer is the next to fire, the current round is open, and
    the firing closes it, leaves nothing unsettled, keeps the outcomes stored so far and
    appends \<open>outcomesAt\<close>: one outcome for each prediction of the round, in order, built
    from that prediction, the start price of the round and the current price;
  \<^item> the firing of any other timer, and every call that is not the firing of a timer,
    leaves the stored outcomes as they are.
\<close>

theorem exactly_once_settlement:
  "let s = run as (newSystem now p d i w c u) in
     map prediction (results (service s)) @ unsettled s =
       acceptedBy as (newSystem now p d i w c u) \<and>
     delivered s = ownResults s \<and>
     (\<exists>x\<in>set (timers s). callback x = RoundCycle) \<and>
     (nextTimer (timers s) = Some t \<longrightarrow> callback t = RoundCycle \<longrightarrow>
        roundOpen s \<and> \<not> roundOpen (fire s) \<and> unsettled (fire s) = [] \<and>
        take (length (results (service s))) (results (service (fire s))) = results (service s) \<and>
        newResults s (fire s) = outcomesAt (due t) s \<and>
        map prediction (outcomesAt (due t) s) = unsettled s) \<and>
     (nextTimer (timers s) = Some t' \<longrightarrow> callback t' \<noteq> RoundCycle \<longrightarrow>
        results (service (fire s)) = results (service s)) \<and>
     (a \<noteq> Fire \<longrightarrow> results (service (step a s)) = results (service s))"
proof -
  let ?s = "run as (newSystem now p d i w c u)"
  have wf: "wellFormed ?s" by (intro wellFormed_run wellFormed_newSystem)
  have 1: "map prediction (results (service ?s)) @ unsettled ?s =
             acceptedBy as (newSystem now p d i w c u)"
    using ledger_run [OF wellFormed_newSystem, of as now p d i w c u]
    by (simp add: ledger_def [symmetric] ledger_newSystem)
  have 2: "delivered ?s = ownResults ?s"
    by (rule tally_run [OF wellFormed_newSystem tally_newSystem])
  have 3: "\<exists>x\<in>set (timers ?s). callback x = RoundCycle" by (rule cycle_armed [OF wf])
  have 4: "nextTimer (timers ?s) = Some t \<longrightarrow> callback t = RoundCycle \<longrightarrow>
        roundOpen ?s \<and> \<not> roundOpen (fire ?s) \<and> unsettled (fire ?s) = [] \<and>
        take (length (results (service ?s))) (results (service (fire ?s))) = results (service ?s) \<and>
        newResults ?s (fire ?s) = outcomesAt (due t) ?s \<and>
        map prediction (outcomesAt (due t) ?s) = unsettled ?s"
    using fire_cycle_outcomes(1-6) [OF wf, of t] by blast
  have 5: "nextTimer (timers ?s) = Some t' \<longrightarrow> callback t' \<noteq> RoundCycle \<longrightarrow>
        results (service (fire ?s)) = results (service ?s)"
    using results_fire_other [OF wf, of t'] by blast
  have 6: "a \<noteq> Fire \<longrightarrow> results (service (step a ?s)) = results (service ?s)"
    using results_step_other [OF wf, of a] by blast
  show ?thesis unfolding Let_def using 1 2 3 4 5 6 by blast
qed

theorem exactly_once_settlement_witness:
  "nextTimer (timers (run [Start, Predict Up 500, Stop] exampleSystem)) =
     Some \<lparr>tid = 1, seq = 1, due = 65000, period = Some 65000, callback = RoundCycle\<rparr> \<and>
   roundOpen (run [Start, Predict Up 500, Stop] exampleSystem) \<and>
   \<not> roundOpen (fire (run [Start, Predict Up 500, Stop] exampleSystem)) \<and>
   unsettled (run [Start, Predict Up 500, Stop] exampleSystem) = [exampleBet Up] \<and>
   map prediction (newResults (run [Start, Predict Up 500, Stop] exampleSystem)
      (fire (run [Start, Predict Up 500, Stop] exampleSystem))) = [exampleBet Up] \<and>
   unsettled (fire (run [Start, Predict Up 500, Stop] exampleSystem)) = [] \<and>
   nextTimer (timers (run [Start] exampleSystem)) =
     Some \<lparr>tid = 2, seq = 2, due = 1000, period = Some 1000, callback = CountdownTick\<rparr> \<and>
   results (service (fire (run [Start] exampleSystem))) =
     results (service (run [Start] exampleSystem)) \<and>
   results (service (step (PriceFeed 153) (run [Start] exampleSystem))) =
     results (service (run [Start] exampleSystem))"
proof -
  let ?c = "\<lparr>tid = 1, seq = 1, due = 65000, period = Some 65000, callback = RoundCycle\<rparr>"
  let ?k = "\<lparr>tid = 2, seq = 2, due = 1000, period = Some 1000, callback = CountdownTick\<rparr>"
  have h1: "nextTimer (timers (run [Start, Predict Up 500, Stop] exampleSystem)) = Some ?c"
    "callback ?c = RoundCycle"
    by (simp_all add: run_to_stop stopped_eq)
  have u: "unsettled (run [Start, Predict Up 500, Stop] exampleSystem) = [exampleBet Up]"
    by (simp add: run_to_stop stopped_eq unsettled_def)
  have h2: "nextTimer (timers (run [Start] exampleSystem)) = Some ?k"
    "callback ?k \<noteq> RoundCycle" "PriceFeed 153 \<noteq> Fire"
    by (simp_all add: run_Start startedSystem_eq earlier_def)
  from exactly_once_settlement [where as = "[Start, Predict Up 500, Stop]" and now = 0
      and p = 150 and d = 60000 and i = 5000 and w = "1.8" and c = exampleConfig
      and u = "''player1''" and t = ?c]
  have a: "roundOpen (run [Start, Predict Up 500, Stop] exampleSystem)"
    "\<not> roundOpen (fire (run [Start, Predict Up 500, Stop] exampleSystem))"
    "unsettled (fire (run [Start, Predict Up 500, Stop] exampleSystem)) = []"
    "map prediction (newResults (run [Start, Predict Up 500, Stop] exampleSystem)
      (fire (run [Start, Predict Up 500, Stop] exampleSystem))) = [exampleBet Up]"
    using h1 u by (simp_all add: Let_def exampleSystem_def)
  from exactly_once_settlement [where as = "[Start]" and now = 0
      and p = 150 and d = 60000 and i = 5000 and w = "1.8" and c = exampleConfig
      and u = "''player1''" and t' = ?k and a = "PriceFeed 153"]
  have b: "results (service (fire (run [Start] exampleSystem))) =
             results (service (run [Start] exampleSystem))"
    "results (service (step (PriceFeed 153) (run [Start] exampleSystem))) =
       results (service (run [Start] exampleSystem))"
    using h2 by (simp_all add: Let_def exampleSystem_def)
  show ?thesis using h1(1) u a h2(1) b by simp
qed

text \<open>
  Claim C4, as amended. After \<open>stop\<close>, and as long as \<open>start\<close> is not called again,
  the session emits no \<open>round_start\<close>, \<open>countdown\<close> or \<open>prediction_made\<close> event:
  every event it emits is a \<open>balance_changed\<close> or a \<open>result\<close> event of a settlement,
  and it is not running. The round scheduler is not stopped: in every state reached
  after \<open>stop\<close> the round timer is still armed, and it is the next timer to fire as
  long as the round in flight is open. Whenever it is the next timer to fire, the
  firing settles every prediction of the round in flight and the session emits, for
  each outcome of its user and in order, a \<open>balance_changed\<close> event carrying the
  signed payout and a \<open>result\<close> event carrying the outcome, and nothing else.
\<close>

theorem after_stop_only_settlement_events:
  assumes "Start \<notin> set bs"
  shows "let stopped = stop (run as (newSystem now p d i w c u)); s = run bs stopped in
     settles (game stopped) (game s) \<and> gstate (game s) \<noteq> Running \<and>
     (\<exists>x\<in>set (timers s). callback x = RoundCycle) \<and>
     (roundOpen s \<longrightarrow> (\<exists>x. nextTimer (timers s) = Some x \<and> callback x = RoundCycle)) \<and>
     (nextTimer (timers s) = Some t \<longrightarrow> callback t = RoundCycle \<longrightarrow>
        newResults s (fire s) = outcomesAt (due t) s \<and>
        map prediction (outcomesAt (due t) s) = unsettled s \<and>
        take (length (events (game s))) (events (game (fire s))) = events (game s) \<and>
        list_all settlementEvent (newEvents s (fire s)) \<and>
        resultsOf (newEvents s (fire s)) = filter (own s) (outcomesAt (due t) s) \<and>
        changesOf (newEvents s (fire s)) =
          map signedPayout (filter (own s) (outcomesAt (due t) s)))"
proof -
  let ?S = "stop (run as (newSystem now p d i w c u))"
  let ?s = "run bs ?S"
  have wfS: "wellFormed ?S"
    by (intro wellFormed_stop wellFormed_run wellFormed_newSystem)
  have wf: "wellFormed ?s" by (rule wellFormed_run [OF wfS])
  have 1: "settles (game ?S) (game ?s)" "gstate (game ?s) \<noteq> Running"
    using stopped_run [OF wfS gstate_stop assms] by simp_all
  have 3: "\<exists>x\<in>set (timers ?s). callback x = RoundCycle" by (rule cycle_armed [OF wf])
  have 4: "nextTimer (timers ?s) = Some t \<longrightarrow> callback t = RoundCycle \<longrightarrow>
        newResults ?s (fire ?s) = outcomesAt (due t) ?s \<and>
        map prediction (outcomesAt (due t) ?s) = unsettled ?s \<and>
        take (length (events (game ?s))) (events (game (fire ?s))) = events (game ?s) \<and>
        list_all settlementEvent (newEvents ?s (fire ?s)) \<and>
        resultsOf (newEvents ?s (fire ?s)) = filter (own ?s) (outcomesAt (due t) ?s) \<and>
        changesOf (newEvents ?s (fire ?s)) =
          map signedPayout (filter (own ?s) (outcomesAt (due t) ?s))"
    using fire_cycle_outcomes(5-10) [OF wf, of t] by blast
  have 5: "roundOpen ?s \<longrightarrow> (\<exists>x. nextTimer (timers ?s) = Some x \<and> callback x = RoundCycle)"
    using stopped_next_is_cycle [OF wf 1(2)] by blast
  show ?thesis unfolding Let_def using 1 3 4 5 by blast
qed

theorem after_stop_only_settlement_events_witness:
  "Start \<notin> set [PriceFeed 153] \<and>
   roundOpen (run [PriceFeed 153] (stop (run [Start, Predict Up 500] exampleSystem))) \<and>
   nextTimer (timers (run [PriceFeed 153] (stop (run [Start, Predict Up 500] exampleSystem)))) =
     Some \<lparr>tid = 1, seq = 1, due = 65000, period = Some 65000, callback = RoundCycle\<rparr> \<and>
   gstate (game (run [PriceFeed 153] (stop (run [Start, Predict Up 500] exampleSystem)))) \<noteq>
     Running \<and>
   unsettled (run [PriceFeed 153] (stop (run [Start, Predict Up 500] exampleSystem))) =
     [exampleBet Up] \<and>
   resultsOf
     (newEvents (run [PriceFeed 153] (stop (run [Start, Predict Up 500] exampleSystem)))
        (fire (run [PriceFeed 153] (stop (run [Start, Predict Up 500] exampleSystem))))) =
     [buildResult 65000 1.8 150 153 (exampleBet Up)] \<and>
   changesOf
     (newEvents (run [PriceFeed 153] (stop (run [Start, Predict Up 500] exampleSystem)))
        (fire (run [PriceFeed 153] (stop (run [Start, Predict Up 500] exampleSystem))))) = [10]"
proof -
  let ?c = "\<lparr>tid = 1, seq = 1, due = 65000, period = Some 65000, callback = RoundCycle\<rparr>"
  let ?s = "run [PriceFeed 153] (stop (run [Start, Predict Up 500] exampleSystem))"
  have s: "?s = (stop (bettingSystem Up 500))\<lparr>currentPrice := 153\<rparr>"
    by (simp only: run_bet run_feed)
  have h: "Start \<notin> set [PriceFeed 153]" "nextTimer (timers ?s) = Some ?c"
    "callback ?c = RoundCycle"
    unfolding s by (simp_all add: stopped_eq)
  have u: "unsettled ?s = [exampleBet Up]" "roundOpen ?s"
    unfolding s by (simp_all add: stopped_eq unsettled_def roundOpen_def)
  have o: "\<And>w. outcomesAt 65000 (?s\<lparr>service := (service ?s)\<lparr>winMultiplier := w\<rparr>\<rparr>) =
             [buildResult 65000 w 150 153 (exampleBet Up)]"
    unfolding s by (simp add: stopped_eq outcomesAt_def)
  have o': "outcomesAt 65000 ?s = [buildResult 65000 1.8 150 153 (exampleBet Up)]"
    using o [of "winMultiplier (service ?s)"] unfolding s by (simp add: stopped_eq)
  have w1: "own ?s (buildResult 65000 1.8 150 153 (exampleBet Up))"
    unfolding s by (simp add: own_def buildResult_fields exampleBet_def stopped_eq newPrediction_def)
  have w2: "signedPayout (buildResult 65000 1.8 150 153 (exampleBet Up)) = 10"
    by (simp add: signedPayout_def exampleBet_def example_outcome)
  note w = w1 w2
  from after_stop_only_settlement_events [OF h(1), where as = "[Start, Predict Up 500]"
      and now = 0 and p = 150 and d = 60000 and i = 5000 and w = "1.8" and c = exampleConfig
      and u = "''player1''" and t = ?c]
  have a: "gstate (game ?s) \<noteq> Running"
    "resultsOf (newEvents ?s (fire ?s)) = filter (own ?s) (outcomesAt 65000 ?s)"
    "changesOf (newEvents ?s (fire ?s)) = map signedPayout (filter (own ?s) (outcomesAt 65000 ?s))"
    using h(2,3) by (simp_all add: Let_def exampleSystem_def)
  have b: "resultsOf (newEvents ?s (fire ?s)) = [buildResult 65000 1.8 150 153 (exampleBet Up)]"
    "changesOf (newEvents ?s (fire ?s)) = [10]"
    unfolding a(2,3) o' using w by simp_all
  show ?thesis using h(1,2) a(1) u b by simp
qed

text \<open>
  Against claim C6 as stated: settlement is not a pure function of the round and the
  settlement price. In the example system, after a prediction of 500 on up and with the
  price at 153, \<open>endCurrentRound\<close> closes the round, stores the outcome and, through
  the subscriber, raises the balance of the session from 10000 to 10010 and makes it
  emit a \<open>result\<close> event; and the same round settled at the same price at another time
  gives another outcome, because an outcome records the time of its settlement.
\<close>

theorem settlement_not_pure:
  "let s = run [Start, Predict Up 500, Stop, PriceFeed 153] exampleSystem in
     clock s = 0 \<and> roundOpen s \<and> results (service s) = [] \<and> balance (game s) = 10000 \<and>
     delivered s = [] \<and>
     \<not> roundOpen (endCurrentRound s) \<and>
     results (service (endCurrentRound s)) = [buildResult 0 1.8 150 153 (exampleBet Up)] \<and>
     balance (game (endCurrentRound s)) = 10010 \<and>
     delivered (endCurrentRound s) = [buildResult 0 1.8 150 153 (exampleBet Up)] \<and>
     newResults (s\<lparr>clock := 65000\<rparr>) (endCurrentRound (s\<lparr>clock := 65000\<rparr>)) \<noteq>
       newResults s (endCurrentRound s)"
proof -
  let ?s = "run [Start, Predict Up 500, Stop, PriceFeed 153] exampleSystem"
  let ?p = "newPrediction Up 500 ''player1'' 0"
  have s: "?s =
     \<lparr>clock = 0,
      timers = [\<lparr>tid = 1, seq = 1, due = 65000, period = Some 65000, callback = RoundCycle\<rparr>],
      nextId = 3, currentPrice = 153,
      service = \<lparr>currentRound = Some \<lparr>startTime = 0, endTime = 60000, roundStartPrice = 150,
                                       predictions = [?p], isActive = True\<rparr>,
                 results = [], subscribers = 1, roundDurationMs = 60000,
                 roundIntervalMs = 5000, intervalId = Some 1, winMultiplier = 1.8\<rparr>,
      game = \<lparr>config = exampleConfig, gstate = Finished, balance = 10000,
              gameUserId = ''player1'', countdownIntervalId = None, winStreak = 0,
              events = [RoundStart 0 150, PredictionMade Up 500 150]\<rparr>\<rparr>"
    unfolding run_to_feed by (simp add: stopped_eq exampleBet_def)
  have b: "clock ?s = 0" "roundOpen ?s" "results (service ?s) = []" "balance (game ?s) = 10000"
    "delivered ?s = []"
    unfolding s by (simp_all add: roundOpen_def delivered_def)
  have sv: "\<And>n. service (endCurrentRound (?s\<lparr>clock := n\<rparr>)) =
     \<lparr>currentRound = Some \<lparr>startTime = 0, endTime = 60000, roundStartPrice = 150,
                            predictions = [?p], isActive = False\<rparr>,
      results = [buildResult n (winMultiplier (service ?s)) 150 153 ?p], subscribers = 1,
      roundDurationMs = 60000, roundIntervalMs = 5000, intervalId = Some 1,
      winMultiplier = 1.8\<rparr>"
    unfolding s by (simp add: endCurrentRound_service close_def)
  have wm: "winMultiplier (service ?s) = 1.8" unfolding s by simp
  have c0: "?s\<lparr>clock := 0\<rparr> = ?s" unfolding s by simp
  have sv0: "service (endCurrentRound ?s) =
     \<lparr>currentRound = Some \<lparr>startTime = 0, endTime = 60000, roundStartPrice = 150,
                            predictions = [?p], isActive = False\<rparr>,
      results = [buildResult 0 1.8 150 153 ?p], subscribers = 1,
      roundDurationMs = 60000, roundIntervalMs = 5000, intervalId = Some 1,
      winMultiplier = 1.8\<rparr>"
    using sv [of 0] unfolding c0 wm .
  have g: "game (endCurrentRound ?s) = handleGameResult (buildResult 0 1.8 150 153 ?p) (game ?s)"
    using wm unfolding s by (simp add: endCurrentRound_def close_def game_settleOne1)
  have e1: "\<not> roundOpen (endCurrentRound ?s)"
    "results (service (endCurrentRound ?s)) = [buildResult 0 1.8 150 153 (exampleBet Up)]"
    by (simp_all add: roundOpen_def sv0 exampleBet_def)
  have e2: "balance (game (endCurrentRound ?s)) = 10010"
    "delivered (endCurrentRound ?s) = [buildResult 0 1.8 150 153 (exampleBet Up)]"
    unfolding delivered_def g
    by (simp_all add: balance_handleGameResult delivered_handleGameResult example_outcome
        buildResult_fields balance_10000 b [unfolded delivered_def] exampleBet_def)
       (simp_all add: s newPrediction_def)
  have n: "\<And>n. newResults (?s\<lparr>clock := n\<rparr>) (endCurrentRound (?s\<lparr>clock := n\<rparr>)) =
             [buildResult n (winMultiplier (service ?s)) 150 153 ?p]"
    by (simp add: newResults_def sv) (simp add: s)
  have "resultTimestamp (buildResult 65000 (winMultiplier (service ?s)) 150 153 ?p) \<noteq>
        resultTimestamp (buildResult 0 (winMultiplier (service ?s)) 150 153 ?p)"
    by (simp add: resultTimestamp_buildResult)
  then have "buildResult 65000 (winMultiplier (service ?s)) 150 153 ?p \<noteq>
             buildResult 0 (winMultiplier (service ?s)) 150 153 ?p"
    by auto
  then have e3: "newResults (?s\<lparr>clock := 65000\<rparr>) (endCurrentRound (?s\<lparr>clock := 65000\<rparr>)) \<noteq>
                 newResults ?s (endCurrentRound ?s)"
    using n [of 65000] n [of 0] unfolding c0 by simp
  show ?thesis unfolding Let_def using b e1 e2 e3 by simp
qed

text \<open>
  Claim C6, as amended. Settlement is determined by the round and the settlement price
  as far as predictions, prices, results and payouts go: two settlements of rounds with
  the same predictions and start price, at the same price, whatever the clock, the
  multiplier, the stored history and the state of the session, yield the same outcomes
  (prediction, prices, win or lose, payout) in the same order, one per prediction. With
  the same multiplier the rewards agree as well, and with the same clock in addition the
  outcomes are equal in every field. It is not a pure function: \<open>endCurrentRound\<close>
  closes the round, appends the outcomes, stamped with the time of settlement, to the
  stored results, and hands each of them to the subscriber, so that the session emits a
  \<open>balance_changed\<close> event with the signed payout and a \<open>result\<close> event for every
  outcome of its user. \<open>endCurrentRound\<close> is a total function: it has no error branch.
\<close>

theorem settlement_deterministic:
  assumes "currentRound (service s) = Some r" "currentRound (service s') = Some r'"
    and "predictions r' = predictions r" "roundStartPrice r' = roundStartPrice r"
    and "currentPrice s' = currentPrice s"
  shows "map outcomeView (newResults s' (endCurrentRound s')) =
           map outcomeView (newResults s (endCurrentRound s)) \<and>
         map prediction (newResults s (endCurrentRound s)) = predictions r \<and>
         (winMultiplier (service s') = winMultiplier (service s) \<longrightarrow>
            map reward (newResults s' (endCurrentRound s')) =
              map reward (newResults s (endCurrentRound s))) \<and>
         (winMultiplier (service s') = winMultiplier (service s) \<longrightarrow> clock s' = clock s \<longrightarrow>
            newResults s' (endCurrentRound s') = newResults s (endCurrentRound s)) \<and>
         currentRound (service (endCurrentRound s)) = Some (close r) \<and>
         results (service (endCurrentRound s)) = results (service s) @ outcomesAt (clock s) s \<and>
         map resultTimestamp (outcomesAt (clock s) s) = map (\<lambda>x. clock s) (predictions r) \<and>
         (subscribers (service s) = 1 \<longrightarrow>
            take (length (events (game s))) (events (game (endCurrentRound s))) =
              events (game s) \<and>
            list_all settlementEvent (newEvents s (endCurrentRound s)) \<and>
            resultsOf (newEvents s (endCurrentRound s)) =
              filter (own s) (outcomesAt (clock s) s) \<and>
            changesOf (newEvents s (endCurrentRound s)) =
              map signedPayout (filter (own s) (outcomesAt (clock s) s)))"
proof -
  have 1: "map outcomeView (newResults s' (endCurrentRound s')) =
           map outcomeView (newResults s (endCurrentRound s)) \<and>
         map prediction (newResults s (endCurrentRound s)) = predictions r \<and>
         (winMultiplier (service s') = winMultiplier (service s) \<longrightarrow>
            map reward (newResults s' (endCurrentRound s')) =
              map reward (newResults s (endCurrentRound s))) \<and>
         (winMultiplier (service s') = winMultiplier (service s) \<longrightarrow> clock s' = clock s \<longrightarrow>
            newResults s' (endCurrentRound s') = newResults s (endCurrentRound s))"
    using assms
    by (simp add: newResults_endCurrentRound map_prediction_buildResult_comp reward_buildResult
        outcomeView_buildResult [of "clock s'" _ _ _ _ "clock s" "winMultiplier (service s)"])
  have 2: "currentRound (service (endCurrentRound s)) = Some (close r)"
    "results (service (endCurrentRound s)) = results (service s) @ outcomesAt (clock s) s"
    "map resultTimestamp (outcomesAt (clock s) s) = map (\<lambda>x. clock s) (predictions r)"
    using assms(1)
    by (simp_all add: endCurrentRound_service outcomesAt_def resultTimestamp_buildResult comp_def)
  have 3: "subscribers (service s) = 1 \<longrightarrow>
            take (length (events (game s))) (events (game (endCurrentRound s))) =
              events (game s) \<and>
            list_all settlementEvent (newEvents s (endCurrentRound s)) \<and>
            resultsOf (newEvents s (endCurrentRound s)) =
              filter (own s) (outcomesAt (clock s) s) \<and>
            changesOf (newEvents s (endCurrentRound s)) =
              map signedPayout (filter (own s) (outcomesAt (clock s) s))"
  proof
    assume "subscribers (service s) = 1"
    from endCurrentRound_effect [OF assms(1) this] obtain es where
      es: "events (game (endCurrentRound s)) = events (game s) @ es"
        "list_all settlementEvent es"
        "resultsOf es = filter (own s) (outcomesAt (clock s) s)"
        "changesOf es = map signedPayout (filter (own s) (outcomesAt (clock s) s))"
      by blast
    have ne: "newEvents s (endCurrentRound s) = es" by (simp add: newEvents_def es(1))
    show "take (length (events (game s))) (events (game (endCurrentRound s))) =
              events (game s) \<and>
            list_all settlementEvent (newEvents s (endCurrentRound s)) \<and>
            resultsOf (newEvents s (endCurrentRound s)) =
              filter (own s) (outcomesAt (clock s) s) \<and>
            changesOf (newEvents s (endCurrentRound s)) =
              map signedPayout (filter (own s) (outcomesAt (clock s) s))"
      unfolding ne using es by simp
  qed
  show ?thesis using 1 2 3 by blast
qed

theorem settlement_deterministic_witness:
  "map outcomeView
     (newResults (endCurrentRound (stop (bettingSystem Up 500)))
        (endCurrentRound (endCurrentRound (stop (bettingSystem Up 500))))) =
   map outcomeView
     (newResults (stop (bettingSystem Up 500)) (endCurrentRound (stop (bettingSystem Up 500)))) \<and>
   map prediction
     (newResults (stop (bettingSystem Up 500)) (endCurrentRound (stop (bettingSystem Up 500)))) =
   [exampleBet Up] \<and>
   newResults (endCurrentRound (stop (bettingSystem Up 500)))
        (endCurrentRound (endCurrentRound (stop (bettingSystem Up 500)))) =
   newResults (stop (bettingSystem Up 500)) (endCurrentRound (stop (bettingSystem Up 500))) \<and>
   subscribers (service (stop (bettingSystem Up 500))) = 1 \<and>
   results (service (endCurrentRound (stop (bettingSystem Up 500)))) =
     results (service (stop (bettingSystem Up 500))) @
       outcomesAt (clock (stop (bettingSystem Up 500))) (stop (bettingSystem Up 500)) \<and>
   resultsOf (newEvents (stop (bettingSystem Up 500))
                (endCurrentRound (stop (bettingSystem Up 500)))) =
     filter (own (stop (bettingSystem Up 500)))
       (outcomesAt (clock (stop (bettingSystem Up 500))) (stop (bettingSystem Up 500)))"
proof -
  let ?s = "stop (bettingSystem Up 500)"
  let ?r = "\<lparr>startTime = 0, endTime = 60000, roundStartPrice = 150,
             predictions = [exampleBet Up], isActive = True\<rparr>"
  have 1: "currentRound (service ?s) = Some ?r" by (simp add: stopped_eq)
  have 2: "currentRound (service (endCurrentRound ?s)) = Some (close ?r)"
    by (simp add: endCurrentRound_service 1)
  have 3: "predictions (close ?r) = predictions ?r" "roundStartPrice (close ?r) = roundStartPrice ?r"
    by (simp_all add: close_def)
  have 4: "currentPrice (endCurrentRound ?s) = currentPrice ?s" by simp
  have 5: "winMultiplier (service (endCurrentRound ?s)) = winMultiplier (service ?s)"
    "clock (endCurrentRound ?s) = clock ?s"
    by (simp_all add: endCurrentRound_service 1)
  have 6: "subscribers (service ?s) = 1" by (simp add: stopped_eq)
  from settlement_deterministic [OF 1 2 3 4] 5 6 show ?thesis by simp
qed

end
